theory Spec2Isabelle
  imports Main "HOL-Library.Word"
begin

section \<open>The DOSBox IPX relay server (package server)\<close>

text \<open>
  A shallow embedding of the server engine: the client registry with its two maps, the
  address allocator, the registration handshake, packet forwarding, inbound dispatch and
  the timeout/keepalive pass. Go pointers to client records are references into an
  explicit heap, because both registry maps hold pointers to the same records and the
  code updates the timestamps through either of them.
\<close>

subsection \<open>Basic types\<close>

type_synonym byte = "8 word"

text \<open>Instants and durations in nanoseconds (Go's \<open>time.Time\<close> and \<open>time.Duration\<close>).\<close>

type_synonym Time = int
type_synonym Duration = int

definition Add :: "Time \<Rightarrow> Duration \<Rightarrow> Time" where
  "Add t d = t + d"

definition After :: "Time \<Rightarrow> Time \<Rightarrow> bool" where
  "After t u = (u < t)"

definition Before :: "Time \<Rightarrow> Time \<Rightarrow> bool" where
  "Before t u = (t < u)"

definition Second :: Duration where
  "Second = 1000000000"

text \<open>
  \<open>UnknownClientError\<close> is the server's own error value; every other error comes from
  the network or from the codec and is opaque to the server.
\<close>

datatype error = UnknownClientError | IOError nat

text \<open>
  A \<open>net.UDPAddr\<close>. The server observes an endpoint only through \<open>addr.String()\<close>, which
  is the key of the endpoint map, so an endpoint is represented by that text.
\<close>

datatype UDPAddr = UDPAddr (String: string)

subsection \<open>Package ipx: addresses and headers\<close>

text \<open>\<open>ipx.Addr\<close> is \<open>[6]byte\<close>.\<close>

type_synonym Addr = "byte list"

text \<open>
  Modelled from the spec: the constants \<open>ipx.AddrNull\<close> and \<open>ipx.AddrBroadcast\<close> of
  package ipx, which is not among the sources. The null address is all zero, the
  broadcast address is all 0xFF.
\<close>

definition AddrNull :: Addr where
  "AddrNull = [0x00, 0x00, 0x00, 0x00, 0x00, 0x00]"

definition AddrBroadcast :: Addr where
  "AddrBroadcast = [0xff, 0xff, 0xff, 0xff, 0xff, 0xff]"

text \<open>Server-initiated pings come from this address.\<close>

definition addrPingReply :: Addr where
  "addrPingReply = [0x02, 0xff, 0xff, 0xff, 0x00, 0x00]"

text \<open>
  Modelled from the spec: the types \<open>ipx.HeaderAddr\<close> and \<open>ipx.Header\<close> of package ipx:
  checksum, declared length, hop-count control field, and a destination and a source
  triple of network id (4 bytes), protocol address and socket number.
\<close>

record HeaderAddr =
  Network :: "byte list"
  Addr :: Addr
  Socket :: "16 word"

record Header =
  Checksum :: "16 word"
  Length :: "16 word"
  TransControl :: byte
  Dest :: HeaderAddr
  Src :: HeaderAddr

text \<open>
  Modelled from the spec: the classification methods of \<open>ipx.Header\<close>. A header is a
  registration packet when its destination protocol address is the null address, and a
  broadcast packet when its destination protocol address is the broadcast address.
\<close>

definition IsRegistrationPacket :: "Header \<Rightarrow> bool" where
  "IsRegistrationPacket h = (Addr (Dest h) = AddrNull)"

definition IsBroadcast :: "Header \<Rightarrow> bool" where
  "IsBroadcast h = (Addr (Dest h) = AddrBroadcast)"

text \<open>
  Modelled from the spec: the wire codec of package ipx (\<open>UnmarshalBinary\<close> and
  \<open>MarshalBinary\<close> of \<open>ipx.Header\<close>) is a black box to the server, so it is a
  parameter of every function that decodes or encodes a header.
\<close>

record Codec =
  UnmarshalBinary :: "byte list \<Rightarrow> error + Header"
  MarshalBinary :: "Header \<Rightarrow> error + byte list"

subsection \<open>The environment\<close>

text \<open>
  What the server reads from outside and what it does to the outside. \<open>clock\<close> lists
  the successive readings of \<open>time.Now()\<close>, \<open>rand\<close> the successive raw outputs of the
  random source, \<open>write_result\<close> the outcome of the successive calls of
  \<open>socket.WriteToUDP\<close>; \<open>sent\<close> is the log of datagrams handed to the socket (one entry
  for each call of \<open>WriteToUDP\<close>, whether or not it reported an error). The reader of
  the tap is part of the environment too: \<open>tap_receives\<close> says of the successive sends
  on the tap's channel whether a reader ever receives them, and \<open>tap_sends\<close> counts
  the sends that were received.
\<close>

record World =
  clock :: "nat \<Rightarrow> Time"
  clock_reads :: nat
  rand :: "nat \<Rightarrow> nat"
  rand_reads :: nat
  write_result :: "nat \<Rightarrow> error option"
  sent :: "(byte list \<times> UDPAddr) list"
  tap_receives :: "nat \<Rightarrow> bool"
  tap_sends :: nat

definition time_Now :: "World \<Rightarrow> Time \<times> World" where
  "time_Now w = (clock w (clock_reads w), w\<lparr>clock_reads := Suc (clock_reads w)\<rparr>)"

text \<open>
  \<open>rand.Intn(n)\<close> returns a number in the half-open interval from 0 to n (and panics
  when n is not positive; the server calls it with 255 only). Reducing a raw output
  modulo n reaches every number of the interval.
\<close>

definition rand_Intn :: "nat \<Rightarrow> World \<Rightarrow> nat \<times> World" where
  "rand_Intn n w = (rand w (rand_reads w) mod n, w\<lparr>rand_reads := Suc (rand_reads w)\<rparr>)"

text \<open>\<open>socket.WriteToUDP(b, addr)\<close>; the byte count it returns is never used.\<close>

definition WriteToUDP :: "byte list \<Rightarrow> UDPAddr \<Rightarrow> World \<Rightarrow> error option \<times> World" where
  "WriteToUDP b a w = (write_result w (length (sent w)), w\<lparr>sent := sent w @ [(b, a)]\<rparr>)"

subsection \<open>Server state\<close>

record Config =
  ClientTimeout :: Duration
  KeepaliveTime :: Duration

definition DefaultConfig :: Config where
  "DefaultConfig = \<lparr>ClientTimeout = 10 * 60 * Second, KeepaliveTime = 5 * Second\<rparr>"

record client =
  addr :: UDPAddr
  ipxAddr :: Addr
  lastReceiveTime :: Time
  lastSendTime :: Time

text \<open>
  The tap's channel \<open>packets\<close> is made without a buffer, so a send on it completes only
  when a reader receives. The record holds the sequence of packets that went through.
\<close>

record Tap =
  packets :: "byte list list"

text \<open>
  \<open>heap\<close> holds the client records, \<open>next_ref\<close> is the next unused reference, and the
  two registry maps hold references. The mutex and the socket handle carry no data; the
  socket's traffic is in the \<^typ>\<open>World\<close>.
\<close>

record Server =
  config :: Config
  heap :: "nat \<Rightarrow> client"
  next_ref :: nat
  clients :: "string \<rightharpoonup> nat"
  clientsByIPX :: "Addr \<rightharpoonup> nat"
  timeoutCheckTime :: Time
  tap :: "Tap option"

subsection \<open>newAddress\<close>

text \<open>The inner loop \<open>for i := 1; i < len(result); i++\<close>.\<close>

function newAddress_fill :: "nat \<Rightarrow> Addr \<Rightarrow> World \<Rightarrow> Addr \<times> World" where
  "newAddress_fill i result w =
     (if i < length result
      then (case rand_Intn 255 w of (r, w') \<Rightarrow>
              newAddress_fill (Suc i) (result[i := of_nat r]) w')
      else (result, w))"
  by pat_completeness auto
termination
  by (relation "measure (\<lambda>(i, result, w). length result - i)") auto

declare newAddress_fill.simps [simp del]

text \<open>
  The outer loop \<open>for { ... }\<close> has no bound: it ends when a candidate is neither
  reserved nor in use. \<open>None\<close> is the run that never leaves the loop.
\<close>

partial_function (option) newAddress_loop :: "Server \<Rightarrow> Addr \<Rightarrow> World \<Rightarrow> (Addr \<times> World) option" where
  "newAddress_loop s result w =
     (case newAddress_fill 1 (result[0 := 0x02]) w of (result', w') \<Rightarrow>
        if result' = AddrNull \<or> result' = AddrBroadcast \<or> result' = addrPingReply
        then newAddress_loop s result' w'
        else if clientsByIPX s result' = None then Some (result', w')
        else newAddress_loop s result' w')"

definition newAddress :: "Server \<Rightarrow> World \<Rightarrow> (Addr \<times> World) option" where
  "newAddress s w = newAddress_loop s (replicate 6 0x00) w"

subsection \<open>newClient\<close>

text \<open>The assignment \<open>c.lastSendTime = t\<close> through the pointer \<open>c\<close>, and its sibling.\<close>

definition set_lastSendTime :: "nat \<Rightarrow> Time \<Rightarrow> Server \<Rightarrow> Server" where
  "set_lastSendTime c t s = s\<lparr>heap := (heap s)(c := (heap s c)\<lparr>lastSendTime := t\<rparr>)\<rparr>"

definition set_lastReceiveTime :: "nat \<Rightarrow> Time \<Rightarrow> Server \<Rightarrow> Server" where
  "set_lastReceiveTime c t s = s\<lparr>heap := (heap s)(c := (heap s c)\<lparr>lastReceiveTime := t\<rparr>)\<rparr>"

text \<open>The zero value of \<open>time.Time\<close>, which a field left out of a struct literal gets.\<close>

definition zeroTime :: Time where
  "zeroTime = 0"

text \<open>
  The first half of \<open>newClient\<close>: look the endpoint up and, if it is unknown, allocate
  an address, create the record and index it under both maps. The result is the pointer
  \<open>c\<close>. In the struct literal \<open>s.newAddress()\<close> is evaluated before \<open>time.Now()\<close>.
\<close>

definition newClient_lookup :: "UDPAddr \<Rightarrow> Server \<times> World \<Rightarrow> (nat \<times> Server \<times> World) option" where
  "newClient_lookup a sw =
     (case sw of (s, w) \<Rightarrow>
        let addrStr = String a in
        (case clients s addrStr of
           Some c \<Rightarrow> Some (c, s, w)
         | None \<Rightarrow>
            (case newAddress s w of
               None \<Rightarrow> None
             | Some (ipx, w1) \<Rightarrow>
                (case time_Now w1 of (now, w2) \<Rightarrow>
                   let c = next_ref s;
                       s1 = s\<lparr>heap := (heap s)(c := \<lparr>addr = a, ipxAddr = ipx,
                                 lastReceiveTime = now, lastSendTime = zeroTime\<rparr>),
                              next_ref := Suc c\<rparr>;
                       s2 = s1\<lparr>clients := (clients s1)(addrStr \<mapsto> c)\<rparr>;
                       s3 = s2\<lparr>clientsByIPX := (clientsByIPX s2)(ipxAddr (heap s2 c) \<mapsto> c)\<rparr>
                   in Some (c, s3, w2)))))"

text \<open>The reply header that \<open>newClient\<close> builds for the client's address.\<close>

definition newClient_reply :: "Addr \<Rightarrow> Header" where
  "newClient_reply a =
     \<lparr>Checksum = 0xffff, Length = 30, TransControl = 0,
      Dest = \<lparr>Network = [0, 0, 0, 0], Addr = a, Socket = 2\<rparr>,
      Src = \<lparr>Network = [0, 0, 0, 1], Addr = AddrBroadcast, Socket = 2\<rparr>\<rparr>"

definition newClient :: "Codec \<Rightarrow> Header \<Rightarrow> UDPAddr \<Rightarrow> Server \<times> World \<Rightarrow> (Server \<times> World) option" where
  "newClient cd header a sw =
     (case newClient_lookup a sw of
        None \<Rightarrow> None
      | Some (c, s, w) \<Rightarrow>
         let reply = newClient_reply (ipxAddr (heap s c)) in
         (case time_Now w of (now, w1) \<Rightarrow>
            let s1 = set_lastSendTime c now s in
            (case MarshalBinary cd reply of
               Inr encodedReply \<Rightarrow> Some (s1, snd (WriteToUDP encodedReply (addr (heap s1 c)) w1))
             | Inl err \<Rightarrow> Some (s1, w1))))"

subsection \<open>Forwarding\<close>

text \<open>
  \<open>for _, c := range s.clients\<close>: Go visits the keys of a map in an order it does not
  specify, and does not produce an entry that was removed before it was reached. The
  order is the argument \<open>ks\<close>; a key that is no longer in the map is passed over.
\<close>

fun forwardBroadcastPacket_loop ::
  "Header \<Rightarrow> byte list \<Rightarrow> string list \<Rightarrow> error option \<Rightarrow> Server \<times> World
     \<Rightarrow> error option \<times> Server \<times> World" where
  "forwardBroadcastPacket_loop header packet [] err (s, w) = (err, s, w)"
| "forwardBroadcastPacket_loop header packet (k # ks) err (s, w) =
     (case clients s k of
        None \<Rightarrow> forwardBroadcastPacket_loop header packet ks err (s, w)
      | Some c \<Rightarrow>
         if ipxAddr (heap s c) = Addr (Src header)
         then forwardBroadcastPacket_loop header packet ks err (s, w)
         else (case time_Now w of (now, w1) \<Rightarrow>
                 let s1 = set_lastSendTime c now s in
                 (case WriteToUDP packet (addr (heap s1 c)) w1 of (err1, w2) \<Rightarrow>
                    forwardBroadcastPacket_loop header packet ks err1 (s1, w2))))"

definition forwardBroadcastPacket ::
  "Header \<Rightarrow> byte list \<Rightarrow> string list \<Rightarrow> Server \<times> World \<Rightarrow> error option \<times> Server \<times> World" where
  "forwardBroadcastPacket header packet ks sw = forwardBroadcastPacket_loop header packet ks None sw"

definition forwardPacket ::
  "Header \<Rightarrow> byte list \<Rightarrow> string list \<Rightarrow> Server \<times> World \<Rightarrow> error option \<times> Server \<times> World" where
  "forwardPacket header packet ks sw =
     (if IsBroadcast header then forwardBroadcastPacket header packet ks sw
      else (case sw of (s, w) \<Rightarrow>
              (case clientsByIPX s (Addr (Dest header)) of
                 None \<Rightarrow> (Some UnknownClientError, s, w)
               | Some c \<Rightarrow>
                  (case time_Now w of (now, w1) \<Rightarrow>
                     let s1 = set_lastSendTime c now s in
                     (case WriteToUDP packet (addr (heap s1 c)) w1 of (err, w2) \<Rightarrow>
                        (err, s1, w2))))))"

subsection \<open>processPacket\<close>

text \<open>
  \<open>if s.tap != nil { s.tap.packets <- packet }\<close>. The send waits, with the mutex held,
  until a reader receives; when no reader ever does, the send and with it
  \<open>processPacket\<close> never return, which is the value \<open>None\<close>.
\<close>

definition tap_publish :: "byte list \<Rightarrow> Server \<times> World \<Rightarrow> (Server \<times> World) option" where
  "tap_publish packet sw =
     (case sw of (s, w) \<Rightarrow>
        (case tap s of
           None \<Rightarrow> Some (s, w)
         | Some t \<Rightarrow>
            if tap_receives w (tap_sends w)
            then Some (s\<lparr>tap := Some (t\<lparr>packets := packets t @ [packet]\<rparr>)\<rparr>,
                       w\<lparr>tap_sends := Suc (tap_sends w)\<rparr>)
            else None))"

definition processPacket ::
  "Codec \<Rightarrow> byte list \<Rightarrow> UDPAddr \<Rightarrow> string list \<Rightarrow> Server \<times> World \<Rightarrow> (Server \<times> World) option" where
  "processPacket cd packet a ks sw =
     (case UnmarshalBinary cd packet of
        Inl err \<Rightarrow> Some sw
      | Inr header \<Rightarrow>
         if IsRegistrationPacket header then newClient cd header a sw
         else (case sw of (s, w) \<Rightarrow>
                 (case clients s (String a) of
                    None \<Rightarrow> Some (s, w)
                  | Some srcClient \<Rightarrow>
                     if Addr (Src header) \<noteq> ipxAddr (heap s srcClient) then Some (s, w)
                     else (case time_Now w of (now, w1) \<Rightarrow>
                             let s1 = set_lastReceiveTime srcClient now s in
                             (case forwardPacket header packet ks (s1, w1) of (err, s2, w2) \<Rightarrow>
                                tap_publish packet (s2, w2))))))"

subsection \<open>Construction, Write and the tap\<close>

text \<open>
  \<open>New\<close>: \<open>net_err\<close> is the outcome of resolving the address and binding the socket.
\<close>

definition New :: "error option \<Rightarrow> Config \<Rightarrow> World \<Rightarrow> (error + Server) \<times> World" where
  "New net_err c w =
     (case net_err of
        Some err \<Rightarrow> (Inl err, w)
      | None \<Rightarrow>
         (case time_Now w of (now, w1) \<Rightarrow>
            (Inr \<lparr>config = c,
                  heap = (\<lambda>r. \<lparr>addr = UDPAddr [], ipxAddr = AddrNull,
                                lastReceiveTime = zeroTime, lastSendTime = zeroTime\<rparr>),
                  next_ref = 0,
                  clients = Map.empty,
                  clientsByIPX = Map.empty,
                  timeoutCheckTime = Add now (10 * Second),
                  tap = None\<rparr>, w1)))"

definition Write ::
  "Codec \<Rightarrow> byte list \<Rightarrow> string list \<Rightarrow> Server \<times> World \<Rightarrow> (nat \<times> error option) \<times> Server \<times> World" where
  "Write cd packet ks sw =
     (case UnmarshalBinary cd packet of
        Inl err \<Rightarrow> ((0, Some err), sw)
      | Inr header \<Rightarrow>
         (case forwardPacket header packet ks sw of
            (Some err, sw') \<Rightarrow> ((0, Some err), sw')
          | (None, sw') \<Rightarrow> ((length packet, None), sw')))"

definition Server_Tap :: "Server \<Rightarrow> Tap \<times> Server" where
  "Server_Tap s =
     (case tap s of
        None \<Rightarrow> (let t = \<lparr>packets = []\<rparr> in (t, s\<lparr>tap := Some t\<rparr>))
      | Some t \<Rightarrow> (t, s))"

definition Tap_Close :: "Server \<Rightarrow> Server" where
  "Tap_Close s = s\<lparr>tap := None\<rparr>"

subsection \<open>sendPing and checkClientTimeouts\<close>

definition sendPing_header :: Header where
  "sendPing_header =
     \<lparr>Checksum = 0, Length = 0, TransControl = 0,
      Dest = \<lparr>Network = [0, 0, 0, 0], Addr = AddrBroadcast, Socket = 2\<rparr>,
      Src = \<lparr>Network = [0, 0, 0, 0], Addr = addrPingReply, Socket = 0\<rparr>\<rparr>"

definition sendPing :: "Codec \<Rightarrow> nat \<Rightarrow> Server \<times> World \<Rightarrow> Server \<times> World" where
  "sendPing cd c sw =
     (case sw of (s, w) \<Rightarrow>
        (case time_Now w of (now, w1) \<Rightarrow>
           let s1 = set_lastSendTime c now s in
           (case MarshalBinary cd sendPing_header of
              Inr encodedHeader \<Rightarrow> (s1, snd (WriteToUDP encodedHeader (addr (heap s1 c)) w1))
            | Inl err \<Rightarrow> (s1, w1))))"

text \<open>The body of the loop of \<open>checkClientTimeouts\<close> for the client \<open>c\<close>.\<close>

definition checkClientTimeouts_body ::
  "Codec \<Rightarrow> Time \<Rightarrow> nat \<Rightarrow> Time \<Rightarrow> Server \<times> World \<Rightarrow> Time \<times> Server \<times> World" where
  "checkClientTimeouts_body cd now c nextCheckTime sw =
     (case sw of (s, w) \<Rightarrow>
        let keepaliveTime = Add (lastSendTime (heap s c)) (KeepaliveTime (config s)) in
        (case (if After now keepaliveTime
               then (case sendPing cd c (s, w) of (s1, w1) \<Rightarrow>
                       (Add (lastSendTime (heap s1 c)) (KeepaliveTime (config s1)), s1, w1))
               else (keepaliveTime, s, w)) of
           (keepaliveTime1, s1, w1) \<Rightarrow>
             let timeoutTime = Add (lastReceiveTime (heap s1 c)) (ClientTimeout (config s1));
                 s2 = (if After now timeoutTime
                       then (let sa = s1\<lparr>clients := (clients s1)(String (addr (heap s1 c)) := None)\<rparr>
                             in sa\<lparr>clientsByIPX := (clientsByIPX sa)(ipxAddr (heap sa c) := None)\<rparr>)
                       else s1);
                 nextCheckTime1 = (if Before keepaliveTime1 nextCheckTime
                                   then keepaliveTime1 else nextCheckTime);
                 nextCheckTime2 = (if Before timeoutTime nextCheckTime1
                                   then timeoutTime else nextCheckTime1)
             in (nextCheckTime2, s2, w1)))"

fun checkClientTimeouts_loop ::
  "Codec \<Rightarrow> Time \<Rightarrow> string list \<Rightarrow> Time \<Rightarrow> Server \<times> World \<Rightarrow> Time \<times> Server \<times> World" where
  "checkClientTimeouts_loop cd now [] nextCheckTime (s, w) = (nextCheckTime, s, w)"
| "checkClientTimeouts_loop cd now (k # ks) nextCheckTime (s, w) =
     (case clients s k of
        None \<Rightarrow> checkClientTimeouts_loop cd now ks nextCheckTime (s, w)
      | Some c \<Rightarrow>
         (case checkClientTimeouts_body cd now c nextCheckTime (s, w) of (nextCheckTime', sw') \<Rightarrow>
            checkClientTimeouts_loop cd now ks nextCheckTime' sw'))"

definition checkClientTimeouts ::
  "Codec \<Rightarrow> string list \<Rightarrow> Server \<times> World \<Rightarrow> Time \<times> Server \<times> World" where
  "checkClientTimeouts cd ks sw =
     (case sw of (s, w) \<Rightarrow>
        (case time_Now w of (now, w1) \<Rightarrow>
           checkClientTimeouts_loop cd now ks (Add now (10 * Second)) (s, w1)))"

subsection \<open>poll\<close>

text \<open>
  What \<open>socket.ReadFromUDP\<close> hands to \<open>poll\<close>: a datagram and its sender, or an error
  together with whether it is a \<open>net.Error\<close> and whether that reports a timeout. The
  buffer holds 1500 bytes, so a longer datagram is cut.
\<close>

datatype recv = Received "byte list" UDPAddr | ReadError error bool bool

text \<open>
  \<open>ks1\<close> is the order of the range loop of a broadcast forward, \<open>ks2\<close> that of the
  loop of \<open>checkClientTimeouts\<close>. The first component of the result is the error that
  \<open>poll\<close> returns.
\<close>

definition poll ::
  "Codec \<Rightarrow> recv \<Rightarrow> string list \<Rightarrow> string list \<Rightarrow> Server \<times> World
     \<Rightarrow> (error option \<times> Server \<times> World) option" where
  "poll cd ev ks1 ks2 sw =
     (case (case ev of
              Received b a \<Rightarrow>
                (case processPacket cd (take 1500 b) a ks1 sw of
                   None \<Rightarrow> None
                 | Some sw' \<Rightarrow> Some (None, sw'))
            | ReadError err isNetError isTimeout \<Rightarrow>
                if isNetError \<and> \<not> isTimeout then Some (Some err, sw) else Some (None, sw)) of
        None \<Rightarrow> None
      | Some (Some err, sw') \<Rightarrow> Some (Some err, sw')
      | Some (None, s1, w1) \<Rightarrow>
         (case time_Now w1 of (t, w2) \<Rightarrow>
            if After t (timeoutCheckTime s1)
            then (case checkClientTimeouts cd ks2 (s1, w2) of (nextCheckTime, s2, w3) \<Rightarrow>
                    Some (None, s2\<lparr>timeoutCheckTime := nextCheckTime\<rparr>, w3))
            else Some (None, s1, w2)))"

section \<open>Properties of the registry\<close>

text \<open>
  The two maps are consistent as a pair: a record reached under an endpoint carries that
  endpoint and is indexed under its own address, and a record reached under an address
  carries that address and is indexed under its own endpoint. References in the maps
  have been allocated.
\<close>

definition registry_consistent :: "Server \<Rightarrow> bool" where
  "registry_consistent s \<longleftrightarrow>
     (\<forall>k c. clients s k = Some c \<longrightarrow>
        String (addr (heap s c)) = k \<and> clientsByIPX s (ipxAddr (heap s c)) = Some c \<and>
        c < next_ref s) \<and>
     (\<forall>a c. clientsByIPX s a = Some c \<longrightarrow>
        ipxAddr (heap s c) = a \<and> clients s (String (addr (heap s c))) = Some c)"

text \<open>No two distinct endpoints hold the same allocated protocol address.\<close>

definition addresses_unique :: "Server \<Rightarrow> bool" where
  "addresses_unique s \<longleftrightarrow>
     (\<forall>k1 k2 c1 c2. clients s k1 = Some c1 \<and> clients s k2 = Some c2 \<and> k1 \<noteq> k2 \<longrightarrow>
        ipxAddr (heap s c1) \<noteq> ipxAddr (heap s c2))"

text \<open>
  The states a server goes through: construction, a received packet, a pass of
  \<open>checkClientTimeouts\<close> (whose result \<open>poll\<close> stores in \<open>timeoutCheckTime\<close>), a call of
  \<open>Write\<close>, and attaching and closing the tap. Every environment and every order of
  iteration over the map is allowed at every step.
\<close>

inductive reachable :: "Codec \<Rightarrow> Server \<Rightarrow> bool" for cd :: Codec where
  reach_New: "New None c w = (Inr s, w') \<Longrightarrow> reachable cd s"
| reach_processPacket:
    "reachable cd s \<Longrightarrow> processPacket cd packet a ks (s, w) = Some (s', w') \<Longrightarrow> reachable cd s'"
| reach_checkClientTimeouts:
    "reachable cd s \<Longrightarrow> checkClientTimeouts cd ks (s, w) = (t, s', w') \<Longrightarrow>
     reachable cd (s'\<lparr>timeoutCheckTime := t\<rparr>)"
| reach_Write:
    "reachable cd s \<Longrightarrow> Write cd packet ks (s, w) = (r, s', w') \<Longrightarrow> reachable cd s'"
| reach_Tap: "reachable cd s \<Longrightarrow> Server_Tap s = (t, s') \<Longrightarrow> reachable cd s'"
| reach_Close: "reachable cd s \<Longrightarrow> reachable cd (Tap_Close s)"

text \<open>An order of a range loop over \<open>s.clients\<close> visits every key once.\<close>

definition range_order :: "string list \<Rightarrow> Server \<Rightarrow> bool" where
  "range_order ks s \<longleftrightarrow> distinct ks \<and> set ks = dom (clients s)"

text \<open>What \<open>newAddress\<close> promises about the address it returns.\<close>

definition allocated_ok :: "Server \<Rightarrow> Addr \<Rightarrow> bool" where
  "allocated_ok s a \<longleftrightarrow> a \<noteq> AddrNull \<and> a \<noteq> AddrBroadcast \<and> a \<noteq> addrPingReply \<and>
   clientsByIPX s a = None \<and> a ! 0 = 0x02 \<and> length a = 6"

text \<open>
  The state of the outer loop of \<open>newAddress\<close> after \<open>n\<close> rounds that all went round
  again: the candidate generated last and the environment.
\<close>

fun newAddress_rounds :: "nat \<Rightarrow> Addr \<times> World \<Rightarrow> Addr \<times> World" where
  "newAddress_rounds 0 rw = rw"
| "newAddress_rounds (Suc n) (result, w) =
     newAddress_rounds n (newAddress_fill 1 (result[0 := 0x02]) w)"

text \<open>A candidate that ends the loop: not reserved and not in the address-keyed map.\<close>

definition candidate_free :: "Server \<Rightarrow> Addr \<Rightarrow> bool" where
  "candidate_free s a \<longleftrightarrow>
     a \<noteq> AddrNull \<and> a \<noteq> AddrBroadcast \<and> a \<noteq> addrPingReply \<and> clientsByIPX s a = None"

text \<open>
  Two states with the same registry maps whose records differ in their timestamps only.
\<close>

definition same_identities :: "Server \<Rightarrow> Server \<Rightarrow> bool" where
  "same_identities s s' \<longleftrightarrow>
     clients s' = clients s \<and> clientsByIPX s' = clientsByIPX s \<and> next_ref s' = next_ref s \<and>
     config s' = config s \<and> tap s' = tap s \<and> timeoutCheckTime s' = timeoutCheckTime s \<and>
     (\<forall>r. addr (heap s' r) = addr (heap s r) \<and> ipxAddr (heap s' r) = ipxAddr (heap s r))"

text \<open>
  The environment only moves forward: the oracles stay, the counters grow and the socket
  log is extended.
\<close>

definition world_extends :: "World \<Rightarrow> World \<Rightarrow> bool" where
  "world_extends w w' \<longleftrightarrow>
     clock w' = clock w \<and> rand w' = rand w \<and> write_result w' = write_result w \<and>
     clock_reads w \<le> clock_reads w' \<and> rand_reads w \<le> rand_reads w' \<and>
     (\<exists>xs. sent w' = sent w @ xs)"

text \<open>
  What a pass of \<open>checkClientTimeouts\<close> may change: entries leave the maps, and the
  last-send time of a record becomes a clock reading taken during the pass.
\<close>

definition pass_frame :: "Server \<times> World \<Rightarrow> Server \<times> World \<Rightarrow> bool" where
  "pass_frame sw sw' \<longleftrightarrow>
     (case sw of (s, w) \<Rightarrow> case sw' of (s', w') \<Rightarrow>
        world_extends w w' \<and> config s' = config s \<and> next_ref s' = next_ref s \<and>
        (\<forall>r. addr (heap s' r) = addr (heap s r) \<and> ipxAddr (heap s' r) = ipxAddr (heap s r) \<and>
             lastReceiveTime (heap s' r) = lastReceiveTime (heap s r)) \<and>
        (\<forall>k. clients s' k = None \<or> clients s' k = clients s k) \<and>
        (\<forall>a. clientsByIPX s' a = None \<or> clientsByIPX s' a = clientsByIPX s a) \<and>
        (\<forall>r. lastSendTime (heap s' r) = lastSendTime (heap s r) \<or>
             (\<exists>i. clock_reads w \<le> i \<and> i < clock_reads w' \<and>
                  lastSendTime (heap s' r) = clock w i)))"

text \<open>
  A run of the server in which the endpoint \<open>a\<close> sends registration packets and nothing
  else, while other endpoints send what they like, passes of \<open>checkClientTimeouts\<close>
  take place and \<open>Write\<close> is called.
\<close>

inductive quiet_run :: "Codec \<Rightarrow> UDPAddr \<Rightarrow> Server \<times> World \<Rightarrow> Server \<times> World \<Rightarrow> bool"
  for cd :: Codec and a :: UDPAddr where
  quiet_none: "quiet_run cd a sw sw"
| quiet_registration:
    "quiet_run cd a sw sw1 \<Longrightarrow> UnmarshalBinary cd packet = Inr header \<Longrightarrow>
     IsRegistrationPacket header \<Longrightarrow> processPacket cd packet a ks sw1 = Some sw2 \<Longrightarrow>
     quiet_run cd a sw sw2"
| quiet_other:
    "quiet_run cd a sw sw1 \<Longrightarrow> String b \<noteq> String a \<Longrightarrow>
     processPacket cd packet b ks sw1 = Some sw2 \<Longrightarrow> quiet_run cd a sw sw2"
| quiet_pass:
    "quiet_run cd a sw (s1, w1) \<Longrightarrow> checkClientTimeouts cd ks (s1, w1) = (t, s2, w2) \<Longrightarrow>
     quiet_run cd a sw (s2\<lparr>timeoutCheckTime := t\<rparr>, w2)"
| quiet_Write:
    "quiet_run cd a sw sw1 \<Longrightarrow> Write cd packet ks sw1 = (r, sw2) \<Longrightarrow> quiet_run cd a sw sw2"

text \<open>The record \<open>c\<close> keeps its endpoint, its address and its last-receive time.\<close>

definition record_kept :: "nat \<Rightarrow> Server \<Rightarrow> Server \<Rightarrow> bool" where
  "record_kept c s s' \<longleftrightarrow>
     config s' = config s \<and> next_ref s \<le> next_ref s' \<and>
     addr (heap s' c) = addr (heap s c) \<and> ipxAddr (heap s' c) = ipxAddr (heap s c) \<and>
     lastReceiveTime (heap s' c) = lastReceiveTime (heap s c)"

text \<open>
  The endpoints a broadcast goes to, in the order of the range loop: every client record
  except those whose protocol address is the header's source address.
\<close>

definition broadcast_targets :: "Header \<Rightarrow> Server \<Rightarrow> string list \<Rightarrow> UDPAddr list" where
  "broadcast_targets header s ks =
     List.map_filter
       (\<lambda>k. case clients s k of
              None \<Rightarrow> None
            | Some c \<Rightarrow> if ipxAddr (heap s c) = Addr (Src header) then None
                        else Some (addr (heap s c))) ks"

text \<open>The outcomes of the calls of \<open>WriteToUDP\<close> made between two environments, in order.\<close>

definition send_outcomes :: "World \<Rightarrow> World \<Rightarrow> error option list" where
  "send_outcomes w w' = map (write_result w) [length (sent w)..<length (sent w')]"

text \<open>
  Two readings of "the error surfaced to the caller". The specification's words: the last error
  encountered among the send attempts. The code: the result of the last send attempt,
  which is no error when that attempt succeeded.
\<close>

definition last_error_encountered :: "error option list \<Rightarrow> error option" where
  "last_error_encountered outcomes =
     (let errors = filter (\<lambda>r. r \<noteq> None) outcomes
      in if errors = [] then None else last errors)"

definition last_send_result :: "error option list \<Rightarrow> error option" where
  "last_send_result outcomes = (if outcomes = [] then None else last outcomes)"

section \<open>Example data\<close>

text \<open>
  A codec with the layout of an IPX header in 30 bytes (checksum, length, transport
  control, packet type, then network, node and socket of the destination and of the
  source), to run the server on concrete packets.
\<close>

definition example_word16 :: "byte \<Rightarrow> byte \<Rightarrow> 16 word" where
  "example_word16 hi lo = of_nat (unat hi * 256 + unat lo)"

definition example_bytes16 :: "16 word \<Rightarrow> byte list" where
  "example_bytes16 x = [of_nat (unat x div 256), of_nat (unat x mod 256)]"

definition example_codec :: Codec where
  "example_codec =
     \<lparr>UnmarshalBinary = (\<lambda>p.
        if length p < 30 then Inl (IOError 0)
        else Inr \<lparr>Checksum = example_word16 (p ! 0) (p ! 1),
                  Length = example_word16 (p ! 2) (p ! 3),
                  TransControl = p ! 4,
                  Dest = \<lparr>Network = take 4 (drop 6 p), Addr = take 6 (drop 10 p),
                          Socket = example_word16 (p ! 16) (p ! 17)\<rparr>,
                  Src = \<lparr>Network = take 4 (drop 18 p), Addr = take 6 (drop 22 p),
                         Socket = example_word16 (p ! 28) (p ! 29)\<rparr>\<rparr>),
      MarshalBinary = (\<lambda>h.
        Inr (example_bytes16 (Checksum h) @ example_bytes16 (Length h) @ [TransControl h, 0] @
             Network (Dest h) @ Addr (Dest h) @ example_bytes16 (Socket (Dest h)) @
             Network (Src h) @ Addr (Src h) @ example_bytes16 (Socket (Src h))))\<rparr>"

text \<open>A packet without payload from \<open>src\<close> to \<open>dst\<close>, both on socket 2.\<close>

definition example_packet :: "Addr \<Rightarrow> Addr \<Rightarrow> byte list" where
  "example_packet dst src =
     [0xff, 0xff, 0x00, 0x1e, 0x00, 0x00] @ [0, 0, 0, 0] @ dst @ [0x00, 0x02] @
     [0, 0, 0, 0] @ src @ [0x00, 0x02]"

text \<open>
  An environment whose clock advances by one second at each reading, whose random
  source counts up from 7, whose socket never fails and in which a reader receives
  every packet sent on the tap.
\<close>

definition example_world :: World where
  "example_world =
     \<lparr>clock = (\<lambda>n. int n * Second), clock_reads = 0, rand = (\<lambda>n. n + 7), rand_reads = 0,
      write_result = (\<lambda>n. None), sent = [], tap_receives = (\<lambda>n. True), tap_sends = 0\<rparr>"

definition example_addr_A :: Addr where
  "example_addr_A = [0x02, 7, 8, 9, 10, 11]"

definition example_addr_B :: Addr where
  "example_addr_B = [0x02, 12, 13, 14, 15, 16]"

definition example_addr_C :: Addr where
  "example_addr_C = [0x02, 17, 18, 19, 20, 21]"

text \<open>The server as \<open>New\<close> returns it, and after the registration of one and of two clients.\<close>

definition example_server0 :: Server where
  "example_server0 =
     \<lparr>config = DefaultConfig,
      heap = (\<lambda>r. \<lparr>addr = UDPAddr [], ipxAddr = AddrNull,
                    lastReceiveTime = zeroTime, lastSendTime = zeroTime\<rparr>),
      next_ref = 0,
      clients = Map.empty,
      clientsByIPX = Map.empty,
      timeoutCheckTime = 10 * Second,
      tap = None\<rparr>"

definition example_server1 :: Server where
  "example_server1 =
     example_server0
       \<lparr>heap := (heap example_server0)
          (0 := \<lparr>addr = UDPAddr ''10.0.0.1:213'', ipxAddr = example_addr_A,
                 lastReceiveTime = 0, lastSendTime = Second\<rparr>),
        next_ref := 1,
        clients := [''10.0.0.1:213'' \<mapsto> 0],
        clientsByIPX := [example_addr_A \<mapsto> 0]\<rparr>"

definition example_server2 :: Server where
  "example_server2 =
     example_server1
       \<lparr>heap := (heap example_server1)
          (1 := \<lparr>addr = UDPAddr ''10.0.0.2:213'', ipxAddr = example_addr_B,
                 lastReceiveTime = 0, lastSendTime = Second\<rparr>),
        next_ref := 2,
        clients := [''10.0.0.1:213'' \<mapsto> 0, ''10.0.0.2:213'' \<mapsto> 1],
        clientsByIPX := [example_addr_A \<mapsto> 0, example_addr_B \<mapsto> 1]\<rparr>"

definition example_header :: "Addr \<Rightarrow> Addr \<Rightarrow> Header" where
  "example_header dst src =
     \<lparr>Checksum = 0xffff, Length = 30, TransControl = 0,
      Dest = \<lparr>Network = [0, 0, 0, 0], Addr = dst, Socket = 2\<rparr>,
      Src = \<lparr>Network = [0, 0, 0, 0], Addr = src, Socket = 2\<rparr>\<rparr>"

definition example_order :: "string list" where
  "example_order = [''10.0.0.1:213'', ''10.0.0.2:213'']"

definition example_reply :: "Addr \<Rightarrow> byte list" where
  "example_reply a =
     [0xff, 0xff, 0x00, 0x1e, 0x00, 0x00] @ [0, 0, 0, 0] @ a @ [0x00, 0x02] @
     [0, 0, 0, 1] @ AddrBroadcast @ [0x00, 0x02]"

definition example_server2_tapped :: Server where
  "example_server2_tapped = example_server2\<lparr>tap := Some \<lparr>packets = []\<rparr>\<rparr>"

text \<open>An environment in which nobody reads from the tap.\<close>

definition example_world_unread :: World where
  "example_world_unread = example_world\<lparr>tap_receives := (\<lambda>n. False)\<rparr>"

definition example_world_late :: World where
  "example_world_late = example_world\<lparr>clock := (\<lambda>n. (1000 + int n) * Second)\<rparr>"

definition example_pass :: "Time \<times> Server \<times> World" where
  "example_pass = checkClientTimeouts example_codec example_order (example_server2, example_world_late)"

definition example_ping :: "byte list" where
  "example_ping =
     [0, 0, 0, 0, 0, 0] @ [0, 0, 0, 0] @ AddrBroadcast @ [0x00, 0x02] @
     [0, 0, 0, 0] @ addrPingReply @ [0x00, 0x00]"

definition example_reregistered :: "Server \<times> World" where
  "example_reregistered =
     the (processPacket example_codec (example_packet AddrNull AddrNull)
            (UDPAddr ''10.0.0.1:213'') example_order (example_server2, example_world_late))"

definition example_quiet :: "Server \<times> World" where
  "example_quiet =
     the (processPacket example_codec (example_packet example_addr_A example_addr_B)
            (UDPAddr ''10.0.0.2:213'') example_order example_reregistered)"

definition example_server3 :: Server where
  "example_server3 =
     example_server2
       \<lparr>heap := (heap example_server2)
          (2 := \<lparr>addr = UDPAddr ''10.0.0.3:213'', ipxAddr = example_addr_C,
                 lastReceiveTime = 0, lastSendTime = Second\<rparr>),
        next_ref := 3,
        clients := [''10.0.0.1:213'' \<mapsto> 0, ''10.0.0.2:213'' \<mapsto> 1, ''10.0.0.3:213'' \<mapsto> 2],
        clientsByIPX := [example_addr_A \<mapsto> 0, example_addr_B \<mapsto> 1, example_addr_C \<mapsto> 2]\<rparr>"

definition example_order3 :: "string list" where
  "example_order3 = [''10.0.0.1:213'', ''10.0.0.2:213'', ''10.0.0.3:213'']"

text \<open>An environment in which the first call of \<open>WriteToUDP\<close> fails and the others succeed.\<close>

definition example_world_failing :: World where
  "example_world_failing =
     example_world\<lparr>write_result := (\<lambda>n. if n = 0 then Some (IOError 1) else None)\<rparr>"

text \<open>A broadcast from the first client to the three clients of \<open>example_server3\<close>.\<close>

definition example_broadcast :: "error option \<times> Server \<times> World" where
  "example_broadcast =
     forwardPacket (example_header AddrBroadcast example_addr_A)
       (example_packet AddrBroadcast example_addr_A) example_order3
       (example_server3, example_world_failing)"

section \<open>Proofs\<close>

lemma newAddress_fill_length: "length (fst (newAddress_fill i result w)) = length result"
proof (induction i result w rule: newAddress_fill.induct)
  case (1 i result w)
  show ?case
    by (subst newAddress_fill.simps) (auto simp: 1 split: prod.splits)
qed

lemma newAddress_fill_nth:
  "j < i \<Longrightarrow> fst (newAddress_fill i result w) ! j = result ! j"
proof (induction i result w rule: newAddress_fill.induct)
  case (1 i result w)
  show ?case
    using 1 by (subst newAddress_fill.simps) (auto split: prod.splits)
qed

lemma newAddress_loop_sound:
  assumes "newAddress_loop s result w = Some y"
  shows "length result = 6 \<longrightarrow> allocated_ok s (fst y)"
proof (rule newAddress_loop.raw_induct[where P="\<lambda>s result w y. length result = 6 \<longrightarrow> allocated_ok s (fst y)", OF _ assms])
  fix f :: "Server \<Rightarrow> Addr \<Rightarrow> World \<Rightarrow> (Addr \<times> World) option" and s result w y
  assume IH: "\<And>s result w y. f s result w = Some y \<Longrightarrow> length result = 6 \<longrightarrow> allocated_ok s (fst y)"
  assume body: "(case newAddress_fill 1 (result[0 := 2]) w of
      (result', w') \<Rightarrow>
        if result' = AddrNull \<or> result' = AddrBroadcast \<or> result' = addrPingReply
        then f s result' w'
        else if clientsByIPX s result' = None then Some (result', w')
             else f s result' w') = Some y"
  show "length result = 6 \<longrightarrow> allocated_ok s (fst y)"
  proof
    assume len: "length result = 6"
    obtain r' w' where fill: "newAddress_fill 1 (result[0 := 2]) w = (r', w')"
      by (cases "newAddress_fill 1 (result[0 := 2]) w")
    have l: "length r' = 6"
      using newAddress_fill_length[of 1 "result[0 := 2]" w] fill len by simp
    have z: "r' ! 0 = 2"
      using newAddress_fill_nth[of 0 1 "result[0 := 2]" w] fill len by simp
    show "allocated_ok s (fst y)"
    proof (cases "r' = AddrNull \<or> r' = AddrBroadcast \<or> r' = addrPingReply")
      case True
      with body fill have "f s r' w' = Some y" by simp
      with IH l show ?thesis by blast
    next
      case False
      note nres = this
      show ?thesis
      proof (cases "clientsByIPX s r' = None")
        case True
        with body fill nres have "y = (r', w')" by simp
        with True nres l z show ?thesis by (simp add: allocated_ok_def)
      next
        case False
        with body fill nres have "f s r' w' = Some y" by auto
        with IH l show ?thesis by blast
      qed
    qed
  qed
qed

lemma newAddress_sound:
  "newAddress s w = Some (a, w') \<Longrightarrow> allocated_ok s a"
  using newAddress_loop_sound[of s "replicate 6 0" w "(a, w')"]
  by (simp add: newAddress_def)

lemma same_identities_refl [simp]: "same_identities s s"
  by (simp add: same_identities_def)

lemma same_identities_trans:
  "same_identities s s1 \<Longrightarrow> same_identities s1 s2 \<Longrightarrow> same_identities s s2"
  by (simp add: same_identities_def)

lemma same_identities_set_lastSendTime [simp]: "same_identities s (set_lastSendTime c t s)"
  by (simp add: same_identities_def set_lastSendTime_def)

lemma same_identities_set_lastReceiveTime [simp]: "same_identities s (set_lastReceiveTime c t s)"
  by (simp add: same_identities_def set_lastReceiveTime_def)

lemma same_identities_consistent:
  "same_identities s s' \<Longrightarrow> registry_consistent s \<Longrightarrow> registry_consistent s'"
  by (simp add: same_identities_def registry_consistent_def)

lemma forwardBroadcastPacket_loop_identities:
  "same_identities s (fst (snd (forwardBroadcastPacket_loop header packet ks err (s, w))))"
proof (induction ks arbitrary: err s w)
  case Nil
  show ?case by simp
next
  case (Cons k ks)
  show ?case
  proof (cases "clients s k")
    case None
    then show ?thesis using Cons by simp
  next
    case (Some c)
    show ?thesis
    proof (cases "ipxAddr (heap s c) = Addr (Src header)")
      case True
      then show ?thesis using Some Cons by simp
    next
      case False
      obtain now w1 where n: "time_Now w = (now, w1)" by (cases "time_Now w")
      obtain e w2 where wr: "WriteToUDP packet (addr (heap (set_lastSendTime c now s) c)) w1 = (e, w2)"
        by (cases "WriteToUDP packet (addr (heap (set_lastSendTime c now s) c)) w1")
      have "same_identities (set_lastSendTime c now s)
              (fst (snd (forwardBroadcastPacket_loop header packet ks e (set_lastSendTime c now s, w2))))"
        by (rule Cons)
      then show ?thesis
        using Some False n wr
        by (auto intro: same_identities_trans[OF same_identities_set_lastSendTime])
    qed
  qed
qed

lemma forwardPacket_identities:
  "same_identities s (fst (snd (forwardPacket header packet ks (s, w))))"
  by (auto simp: forwardPacket_def forwardBroadcastPacket_def forwardBroadcastPacket_loop_identities
      Let_def split: option.splits prod.splits)

lemma forwardBroadcastPacket_loop_tap_reader:
  "forwardBroadcastPacket_loop header packet ks err (s, w) = (err', s', w') \<Longrightarrow>
   tap_receives w' = tap_receives w \<and> tap_sends w' = tap_sends w"
proof (induction ks arbitrary: err s w)
  case Nil
  then show ?case by simp
next
  case (Cons k ks)
  show ?case
  proof (cases "clients s k")
    case None
    with Cons show ?thesis by simp
  next
    case (Some c)
    show ?thesis
    proof (cases "ipxAddr (heap s c) = Addr (Src header)")
      case True
      with Some Cons show ?thesis by simp
    next
      case False
      let ?s1 = "set_lastSendTime c (clock w (clock_reads w)) s"
      let ?w2 = "w\<lparr>clock_reads := Suc (clock_reads w), sent := sent w @ [(packet, addr (heap s c))]\<rparr>"
      have "forwardBroadcastPacket_loop header packet ks (write_result w (length (sent w))) (?s1, ?w2) =
              (err', s', w')"
        using Cons.prems Some False
        by (simp add: time_Now_def WriteToUDP_def set_lastSendTime_def)
      from Cons.IH[OF this] show ?thesis by simp
    qed
  qed
qed

lemma forwardPacket_tap_reader:
  "forwardPacket header packet ks (s, w) = (err, s', w') \<Longrightarrow>
   tap_receives w' = tap_receives w \<and> tap_sends w' = tap_sends w"
  by (auto simp: forwardPacket_def forwardBroadcastPacket_def time_Now_def WriteToUDP_def Let_def
      split: if_splits option.splits dest: forwardBroadcastPacket_loop_tap_reader)

lemma tap_publish_registry:
  "tap_publish p (s, w) = Some (s', w') \<Longrightarrow>
   config s' = config s \<and> heap s' = heap s \<and> next_ref s' = next_ref s \<and>
   clients s' = clients s \<and> clientsByIPX s' = clientsByIPX s"
  by (auto simp: tap_publish_def split: option.splits if_splits)

lemma registry_consistent_tap_publish:
  "tap_publish p (s, w) = Some (s', w') \<Longrightarrow> registry_consistent s' = registry_consistent s"
  by (drule tap_publish_registry) (simp add: registry_consistent_def)

lemma newClient_lookup_consistent:
  assumes "registry_consistent s" and "newClient_lookup a (s, w) = Some (c, s', w')"
  shows "registry_consistent s' \<and> clients s' (String a) = Some c"
proof (cases "clients s (String a)")
  case (Some c0)
  with assms show ?thesis by (simp add: newClient_lookup_def)
next
  case None
  from assms(2) None obtain ipx w1 where na: "newAddress s w = Some (ipx, w1)"
    by (auto simp: newClient_lookup_def split: option.splits)
  then have free: "clientsByIPX s ipx = None"
    using newAddress_sound by (simp add: allocated_ok_def)
  obtain now w2 where n: "time_Now w1 = (now, w2)" by (cases "time_Now w1")
  let ?c = "next_ref s"
  have s': "s' = s\<lparr>heap := (heap s)(?c := \<lparr>addr = a, ipxAddr = ipx, lastReceiveTime = now,
                                             lastSendTime = zeroTime\<rparr>),
                  next_ref := Suc ?c,
                  clients := (clients s)(String a \<mapsto> ?c),
                  clientsByIPX := (clientsByIPX s)(ipx \<mapsto> ?c)\<rparr>" and c: "c = ?c"
    using assms(2) None na n by (auto simp: newClient_lookup_def Let_def)
  have lt: "\<And>k r. clients s k = Some r \<Longrightarrow> r < ?c"
    and lt2: "\<And>x r. clientsByIPX s x = Some r \<Longrightarrow> r < ?c"
    using assms(1) by (auto simp: registry_consistent_def)
  have "registry_consistent s'"
    unfolding registry_consistent_def
  proof (intro conjI allI impI)
    fix k r assume h: "clients s' k = Some r"
    show "String (addr (heap s' r)) = k"
      using h assms(1) None lt[of k r] by (auto simp: s' registry_consistent_def split: if_splits)
    show "clientsByIPX s' (ipxAddr (heap s' r)) = Some r"
      using h assms(1) None free lt[of k r] by (auto simp: s' registry_consistent_def split: if_splits)
    show "r < next_ref s'"
      using h lt[of k r] by (auto simp: s' split: if_splits)
  next
    fix x r assume h: "clientsByIPX s' x = Some r"
    show "ipxAddr (heap s' r) = x"
      using h assms(1) free lt2[of x r] by (auto simp: s' registry_consistent_def split: if_splits)
    show "clients s' (String (addr (heap s' r))) = Some r"
    proof (cases "x = ipx")
      case True
      with h show ?thesis by (simp add: s')
    next
      case False
      with h have old: "clientsByIPX s x = Some r" by (simp add: s')
      then have "clients s (String (addr (heap s r))) = Some r"
        using assms(1) by (simp add: registry_consistent_def)
      moreover from this None have "String (addr (heap s r)) \<noteq> String a" by auto
      moreover have "r \<noteq> ?c" using lt2[OF old] by simp
      ultimately show ?thesis by (simp add: s')
    qed
  qed
  then show ?thesis by (simp add: s' c)
qed

lemma same_identities_sym: "same_identities s s' \<Longrightarrow> same_identities s' s"
  by (simp add: same_identities_def)

lemma same_identities_consistent_iff:
  "same_identities s s' \<Longrightarrow> registry_consistent s' = registry_consistent s"
  using same_identities_consistent same_identities_sym by blast

lemma registry_consistent_set_lastSendTime [simp]:
  "registry_consistent (set_lastSendTime c t s) = registry_consistent s"
  by (rule same_identities_consistent_iff) simp

lemma registry_consistent_set_lastReceiveTime [simp]:
  "registry_consistent (set_lastReceiveTime c t s) = registry_consistent s"
  by (rule same_identities_consistent_iff) simp

lemma newClient_consistent:
  assumes "registry_consistent s" and "newClient cd header a (s, w) = Some (s', w')"
  shows "registry_consistent s'"
proof -
  from assms(2) obtain c s1 w1 where lk: "newClient_lookup a (s, w) = Some (c, s1, w1)"
    by (auto simp: newClient_def split: option.splits)
  then have "registry_consistent s1"
    using newClient_lookup_consistent[OF assms(1)] by blast
  moreover have "s' = set_lastSendTime c (fst (time_Now w1)) s1"
    using assms(2) lk by (auto simp: newClient_def Let_def split: prod.splits sum.splits)
  ultimately show ?thesis by simp
qed

lemma forwardPacket_consistent:
  "registry_consistent s \<Longrightarrow> forwardPacket header packet ks (s, w) = (e, s', w') \<Longrightarrow>
   registry_consistent s'"
  using forwardPacket_identities[of s header packet ks w] same_identities_consistent[of s s']
  by simp

lemma processPacket_consistent:
  assumes "registry_consistent s" and "processPacket cd packet a ks (s, w) = Some (s', w')"
  shows "registry_consistent s'"
proof (cases "UnmarshalBinary cd packet")
  case (Inl e)
  with assms show ?thesis by (simp add: processPacket_def)
next
  case (Inr header)
  show ?thesis
  proof (cases "IsRegistrationPacket header")
    case True
    with assms Inr show ?thesis by (auto simp: processPacket_def intro: newClient_consistent)
  next
    case False
    show ?thesis
    proof (cases "clients s (String a)")
      case None
      with assms Inr False show ?thesis by (simp add: processPacket_def)
    next
      case (Some c)
      show ?thesis
      proof (cases "Addr (Src header) \<noteq> ipxAddr (heap s c)")
        case True
        with assms Inr False Some show ?thesis by (simp add: processPacket_def)
      next
        case ok: False
        obtain now w1 where n: "time_Now w = (now, w1)" by (cases "time_Now w")
        obtain e s2 w2 where f: "forwardPacket header packet ks (set_lastReceiveTime c now s, w1) = (e, s2, w2)"
          by (cases "forwardPacket header packet ks (set_lastReceiveTime c now s, w1)")
        have "registry_consistent s2"
          using forwardPacket_consistent[OF _ f] assms(1) by simp
        moreover have "tap_publish packet (s2, w2) = Some (s', w')"
          using assms(2) Inr False Some ok n f by (simp add: processPacket_def)
        ultimately show ?thesis by (simp add: registry_consistent_tap_publish)
      qed
    qed
  qed
qed

lemma Write_consistent:
  assumes "registry_consistent s" and "Write cd packet ks (s, w) = (r, s', w')"
  shows "registry_consistent s'"
proof (cases "UnmarshalBinary cd packet")
  case (Inl e)
  with assms show ?thesis by (simp add: Write_def)
next
  case (Inr header)
  obtain e s2 w2 where f: "forwardPacket header packet ks (s, w) = (e, s2, w2)"
    by (cases "forwardPacket header packet ks (s, w)")
  then have "s' = s2"
    using assms(2) Inr by (cases e) (simp_all add: Write_def)
  with forwardPacket_consistent[OF assms(1) f] show ?thesis by simp
qed

lemma sendPing_identities:
  "same_identities s (fst (sendPing cd c (s, w)))"
  by (simp add: sendPing_def Let_def split: prod.splits sum.splits)

lemma registry_consistent_delete:
  assumes "registry_consistent s" and "clients s k = Some c"
  shows "registry_consistent
           (s\<lparr>clients := (clients s)(String (addr (heap s c)) := None),
              clientsByIPX := (clientsByIPX s)(ipxAddr (heap s c) := None)\<rparr>)"
proof -
  have A: "\<And>k r. clients s k = Some r \<Longrightarrow>
             String (addr (heap s r)) = k \<and> clientsByIPX s (ipxAddr (heap s r)) = Some r \<and> r < next_ref s"
    and B: "\<And>x r. clientsByIPX s x = Some r \<Longrightarrow>
             ipxAddr (heap s r) = x \<and> clients s (String (addr (heap s r))) = Some r"
    using assms(1) by (auto simp: registry_consistent_def)
  show ?thesis
    unfolding registry_consistent_def
  proof (intro conjI allI impI)
    fix k' r assume "clients (s\<lparr>clients := (clients s)(String (addr (heap s c)) := None),
              clientsByIPX := (clientsByIPX s)(ipxAddr (heap s c) := None)\<rparr>) k' = Some r"
    then have ne: "k' \<noteq> String (addr (heap s c))" and h: "clients s k' = Some r"
      by (auto split: if_splits)
    have "r \<noteq> c" using A[OF h] A[OF assms(2)] ne by auto
    then have "ipxAddr (heap s r) \<noteq> ipxAddr (heap s c)"
      using A[OF h] A[OF assms(2)] by auto
    then show "String (addr (heap (s\<lparr>clients := (clients s)(String (addr (heap s c)) := None),
              clientsByIPX := (clientsByIPX s)(ipxAddr (heap s c) := None)\<rparr>) r)) = k'"
      and "clientsByIPX (s\<lparr>clients := (clients s)(String (addr (heap s c)) := None),
              clientsByIPX := (clientsByIPX s)(ipxAddr (heap s c) := None)\<rparr>)
             (ipxAddr (heap (s\<lparr>clients := (clients s)(String (addr (heap s c)) := None),
              clientsByIPX := (clientsByIPX s)(ipxAddr (heap s c) := None)\<rparr>) r)) = Some r"
      and "r < next_ref (s\<lparr>clients := (clients s)(String (addr (heap s c)) := None),
              clientsByIPX := (clientsByIPX s)(ipxAddr (heap s c) := None)\<rparr>)"
      using A[OF h] by auto
  next
    fix x r assume "clientsByIPX (s\<lparr>clients := (clients s)(String (addr (heap s c)) := None),
              clientsByIPX := (clientsByIPX s)(ipxAddr (heap s c) := None)\<rparr>) x = Some r"
    then have ne: "x \<noteq> ipxAddr (heap s c)" and h: "clientsByIPX s x = Some r"
      by (auto split: if_splits)
    have "r \<noteq> c" using B[OF h] ne by auto
    then have "String (addr (heap s r)) \<noteq> String (addr (heap s c))"
      using B[OF h] A[OF assms(2)] assms(2) by auto
    then show "ipxAddr (heap (s\<lparr>clients := (clients s)(String (addr (heap s c)) := None),
              clientsByIPX := (clientsByIPX s)(ipxAddr (heap s c) := None)\<rparr>) r) = x"
      and "clients (s\<lparr>clients := (clients s)(String (addr (heap s c)) := None),
              clientsByIPX := (clientsByIPX s)(ipxAddr (heap s c) := None)\<rparr>)
             (String (addr (heap (s\<lparr>clients := (clients s)(String (addr (heap s c)) := None),
              clientsByIPX := (clientsByIPX s)(ipxAddr (heap s c) := None)\<rparr>) r))) = Some r"
      using B[OF h] by auto
  qed
qed

lemma checkClientTimeouts_body_consistent:
  assumes "registry_consistent s" and "clients s k = Some c"
    and "checkClientTimeouts_body cd now c nct (s, w) = (nct', s', w')"
  shows "registry_consistent s'"
proof -
  define s1 where "s1 = (if After now (Add (lastSendTime (heap s c)) (KeepaliveTime (config s)))
                          then fst (sendPing cd c (s, w)) else s)"
  have id: "same_identities s s1"
    by (simp add: s1_def sendPing_identities)
  then have c1: "registry_consistent s1" and k1: "clients s1 k = Some c"
    using assms(1,2) same_identities_consistent by (auto simp: same_identities_def)
  have "s' = (if After now (Add (lastReceiveTime (heap s1 c)) (ClientTimeout (config s1)))
              then s1\<lparr>clients := (clients s1)(String (addr (heap s1 c)) := None),
                      clientsByIPX := (clientsByIPX s1)(ipxAddr (heap s1 c) := None)\<rparr>
              else s1)"
    using assms(3) by (auto simp: checkClientTimeouts_body_def s1_def Let_def split: prod.splits if_splits)
  then show ?thesis
    using registry_consistent_delete[OF c1 k1] c1 by (simp split: if_splits)
qed

lemma checkClientTimeouts_loop_consistent:
  "registry_consistent s \<Longrightarrow> checkClientTimeouts_loop cd now ks nct (s, w) = (nct', s', w') \<Longrightarrow>
   registry_consistent s'"
proof (induction ks arbitrary: nct s w)
  case Nil
  then show ?case by simp
next
  case (Cons k ks)
  show ?case
  proof (cases "clients s k")
    case None
    with Cons show ?thesis by simp
  next
    case (Some c)
    obtain n1 s1 w1 where b: "checkClientTimeouts_body cd now c nct (s, w) = (n1, s1, w1)"
      by (cases "checkClientTimeouts_body cd now c nct (s, w)")
    have "registry_consistent s1"
      by (rule checkClientTimeouts_body_consistent[OF Cons.prems(1) Some b])
    moreover have "checkClientTimeouts_loop cd now ks n1 (s1, w1) = (nct', s', w')"
      using Cons.prems(2) Some b by simp
    ultimately show ?thesis by (rule Cons.IH)
  qed
qed

lemma checkClientTimeouts_consistent:
  "registry_consistent s \<Longrightarrow> checkClientTimeouts cd ks (s, w) = (t, s', w') \<Longrightarrow>
   registry_consistent s'"
  by (auto simp: checkClientTimeouts_def split: prod.splits
      dest: checkClientTimeouts_loop_consistent)

lemma New_consistent: "New None c w = (Inr s, w') \<Longrightarrow> registry_consistent s"
  by (auto simp: New_def registry_consistent_def split: prod.splits)

lemma reachable_consistent: "reachable cd s \<Longrightarrow> registry_consistent s"
proof (induction rule: reachable.induct)
  case (reach_New c w s w')
  then show ?case by (rule New_consistent)
next
  case (reach_processPacket s packet a ks w s' w')
  then show ?case using processPacket_consistent by blast
next
  case (reach_checkClientTimeouts s ks w t s' w')
  then have "registry_consistent s'" using checkClientTimeouts_consistent by blast
  then show ?case by (simp add: registry_consistent_def)
next
  case (reach_Write s packet ks w r s' w')
  then show ?case using Write_consistent by blast
next
  case (reach_Tap s t s')
  then show ?case
    by (auto simp: Server_Tap_def registry_consistent_def Let_def split: option.splits)
next
  case (reach_Close s)
  then show ?case by (simp add: Tap_Close_def registry_consistent_def)
qed

lemma consistent_unique: "registry_consistent s \<Longrightarrow> addresses_unique s"
  unfolding registry_consistent_def addresses_unique_def
  by metis

text \<open>A call of \<open>poll\<close> is a received packet followed, when it is due, by a pass.\<close>

lemma poll_reachable:
  assumes "reachable cd s" and "poll cd ev ks1 ks2 (s, w) = Some (e, s', w')"
  shows "reachable cd s'"
proof -
  have tm: "reachable cd s2" if r: "reachable cd s1"
    and p: "(case time_Now w1 of (t, w2) \<Rightarrow>
            if After t (timeoutCheckTime s1)
            then (case checkClientTimeouts cd ks2 (s1, w2) of (nextCheckTime, s2, w3) \<Rightarrow>
                    Some (None, s2\<lparr>timeoutCheckTime := nextCheckTime\<rparr>, w3))
            else Some (None, s1, w2)) = Some (e2, s2, w3)" for s1 w1 e2 s2 w3
  proof -
    obtain t w2 where n: "time_Now w1 = (t, w2)" by (cases "time_Now w1")
    show ?thesis
    proof (cases "After t (timeoutCheckTime s1)")
      case True
      obtain nct sa wa where c: "checkClientTimeouts cd ks2 (s1, w2) = (nct, sa, wa)"
        by (cases "checkClientTimeouts cd ks2 (s1, w2)")
      with p n True have "s2 = sa\<lparr>timeoutCheckTime := nct\<rparr>" by simp
      with reach_checkClientTimeouts[OF r c] show ?thesis by simp
    next
      case False
      with p n have "s2 = s1" by simp
      with r show ?thesis by simp
    qed
  qed
  show ?thesis
  proof (cases ev)
    case (Received b a)
    show ?thesis
    proof (cases "processPacket cd (take 1500 b) a ks1 (s, w)")
      case None
      with assms(2) Received show ?thesis by (simp add: poll_def)
    next
      case (Some sw1)
      obtain s1 w1 where sw1: "sw1 = (s1, w1)" by (cases sw1)
      have r1: "reachable cd s1"
        using reach_processPacket[OF assms(1)] Some sw1 by blast
      show ?thesis
        using assms(2) Received Some sw1 tm[OF r1, of w1 e s' w']
        by (simp add: poll_def)
    qed
  next
    case (ReadError err isNetError isTimeout)
    show ?thesis
    proof (cases "isNetError \<and> \<not> isTimeout")
      case True
      with assms ReadError show ?thesis by (auto simp: poll_def)
    next
      case False
      with assms(2) ReadError show ?thesis
        using tm[OF assms(1), of w e s' w'] by (auto simp: poll_def)
    qed
  qed
qed

subsection \<open>The example states are reachable\<close>

lemma replicate_6: "replicate 6 x = [x, x, x, x, x, x]"
  by (simp add: eval_nat_numeral)

lemmas example_simps =
  example_codec_def example_packet_def example_word16_def example_bytes16_def
  example_world_def example_addr_A_def example_addr_B_def example_addr_C_def
  example_server0_def example_server1_def example_server2_def DefaultConfig_def
  example_header_def example_order_def
  AddrNull_def AddrBroadcast_def addrPingReply_def replicate_6

lemmas run_simps =
  newAddress_def newAddress_loop.simps newAddress_fill.simps rand_Intn_def time_Now_def
  WriteToUDP_def processPacket_def newClient_def newClient_lookup_def
  IsRegistrationPacket_def IsBroadcast_def set_lastSendTime_def set_lastReceiveTime_def
  newClient_reply_def zeroTime_def Let_def Add_def After_def Before_def

lemma example_server0_New:
  "New None DefaultConfig example_world = (Inr example_server0, example_world\<lparr>clock_reads := 1\<rparr>)"
  by (simp add: New_def example_simps run_simps)

lemma example_server1_registered:
  "\<exists>w'. processPacket example_codec (example_packet AddrNull AddrNull)
          (UDPAddr ''10.0.0.1:213'') [] (example_server0, example_world) = Some (example_server1, w')"
  by (simp add: example_simps run_simps)

lemma example_server2_registered:
  "\<exists>w'. processPacket example_codec (example_packet AddrNull AddrNull)
          (UDPAddr ''10.0.0.2:213'') [] (example_server1, example_world) = Some (example_server2, w')"
  by (simp add: example_simps run_simps fun_upd_twist)

lemma example_server0_reachable: "reachable example_codec example_server0"
  using example_server0_New by (rule reach_New)

lemma example_server1_reachable: "reachable example_codec example_server1"
  using example_server1_registered example_server0_reachable
  by (blast intro: reach_processPacket)

lemma example_server2_reachable: "reachable example_codec example_server2"
  using example_server2_registered example_server1_reachable
  by (blast intro: reach_processPacket)

lemma world_extends_refl [simp]: "world_extends w w"
  by (simp add: world_extends_def)

lemma world_extends_trans:
  "world_extends w w1 \<Longrightarrow> world_extends w1 w2 \<Longrightarrow> world_extends w w2"
  by (auto simp: world_extends_def)

lemma pass_frame_refl [simp]: "pass_frame sw sw"
  by (simp add: pass_frame_def split: prod.splits)

lemma pass_frame_trans:
  assumes "pass_frame (s, w) (s1, w1)" and "pass_frame (s1, w1) (s2, w2)"
  shows "pass_frame (s, w) (s2, w2)"
proof -
  have e: "world_extends w w1" "world_extends w1 w2"
    using assms by (simp_all add: pass_frame_def)
  have ls: "lastSendTime (heap s2 r) = lastSendTime (heap s r) \<or>
            (\<exists>i. clock_reads w \<le> i \<and> i < clock_reads w2 \<and> lastSendTime (heap s2 r) = clock w i)" for r
  proof -
    have a: "lastSendTime (heap s1 r) = lastSendTime (heap s r) \<or>
            (\<exists>i. clock_reads w \<le> i \<and> i < clock_reads w1 \<and> lastSendTime (heap s1 r) = clock w i)"
      and b: "lastSendTime (heap s2 r) = lastSendTime (heap s1 r) \<or>
            (\<exists>i. clock_reads w1 \<le> i \<and> i < clock_reads w2 \<and> lastSendTime (heap s2 r) = clock w1 i)"
      using assms by (simp_all add: pass_frame_def)
    have c: "clock w1 = clock w" "clock_reads w \<le> clock_reads w1" "clock_reads w1 \<le> clock_reads w2"
      using e by (simp_all add: world_extends_def)
    from b show ?thesis
    proof
      assume eq: "lastSendTime (heap s2 r) = lastSendTime (heap s1 r)"
      from a show ?thesis
      proof
        assume "lastSendTime (heap s1 r) = lastSendTime (heap s r)"
        with eq show ?thesis by simp
      next
        assume "\<exists>i. clock_reads w \<le> i \<and> i < clock_reads w1 \<and> lastSendTime (heap s1 r) = clock w i"
        then obtain i where "clock_reads w \<le> i" "i < clock_reads w1" "lastSendTime (heap s1 r) = clock w i"
          by blast
        with eq c have "clock_reads w \<le> i \<and> i < clock_reads w2 \<and> lastSendTime (heap s2 r) = clock w i"
          by simp
        then show ?thesis by blast
      qed
    next
      assume "\<exists>i. clock_reads w1 \<le> i \<and> i < clock_reads w2 \<and> lastSendTime (heap s2 r) = clock w1 i"
      then obtain i where "clock_reads w1 \<le> i" "i < clock_reads w2" "lastSendTime (heap s2 r) = clock w1 i"
        by blast
      with c have "clock_reads w \<le> i \<and> i < clock_reads w2 \<and> lastSendTime (heap s2 r) = clock w i"
        by simp
      then show ?thesis by blast
    qed
  qed
  have cl: "clients s2 k = None \<or> clients s2 k = clients s k" for k
    using assms by (simp add: pass_frame_def) metis
  have ci: "clientsByIPX s2 a = None \<or> clientsByIPX s2 a = clientsByIPX s a" for a
    using assms by (simp add: pass_frame_def) metis
  have rest: "config s2 = config s" "next_ref s2 = next_ref s"
    "\<And>r. addr (heap s2 r) = addr (heap s r) \<and> ipxAddr (heap s2 r) = ipxAddr (heap s r) \<and>
             lastReceiveTime (heap s2 r) = lastReceiveTime (heap s r)"
    using assms by (simp_all add: pass_frame_def)
  show ?thesis
    unfolding pass_frame_def using world_extends_trans[OF e] ls cl ci rest by simp
qed

lemma sendPing_eq:
  "sendPing cd c (s, w) =
     (set_lastSendTime c (clock w (clock_reads w)) s,
      (case MarshalBinary cd sendPing_header of
         Inr encodedHeader \<Rightarrow>
           w\<lparr>clock_reads := Suc (clock_reads w), sent := sent w @ [(encodedHeader, addr (heap s c))]\<rparr>
       | Inl err \<Rightarrow> w\<lparr>clock_reads := Suc (clock_reads w)\<rparr>))"
  by (simp add: sendPing_def time_Now_def WriteToUDP_def set_lastSendTime_def Let_def
      split: sum.splits)

text \<open>The loop body, with the three steps of the source written as a composition.\<close>

lemma checkClientTimeouts_body_eq:
  "checkClientTimeouts_body cd now c nct (s, w) = (n', s', w') \<Longrightarrow>
   (let due = After now (Add (lastSendTime (heap s c)) (KeepaliveTime (config s)));
        s1 = (if due then set_lastSendTime c (clock w (clock_reads w)) s else s);
        old = After now (Add (lastReceiveTime (heap s c)) (ClientTimeout (config s)))
    in w' = (if due then snd (sendPing cd c (s, w)) else w) \<and>
       s' = (if old
             then s1\<lparr>clients := (clients s)(String (addr (heap s c)) := None),
                     clientsByIPX := (clientsByIPX s)(ipxAddr (heap s c) := None)\<rparr>
             else s1))"
  by (auto simp: checkClientTimeouts_body_def sendPing_eq Let_def set_lastSendTime_def
      split: if_splits)

lemma checkClientTimeouts_body_frame:
  assumes "checkClientTimeouts_body cd now c nct (s, w) = (n', s', w')"
  shows "pass_frame (s, w) (s', w')"
proof -
  note eq = checkClientTimeouts_body_eq[OF assms, unfolded Let_def]
  have w: "world_extends w w'"
    using eq by (auto simp: sendPing_eq world_extends_def split: sum.splits)
  have ls: "lastSendTime (heap s' r) = lastSendTime (heap s r) \<or>
            (\<exists>i. clock_reads w \<le> i \<and> i < clock_reads w' \<and> lastSendTime (heap s' r) = clock w i)" for r
  proof (cases "After now (Add (lastSendTime (heap s c)) (KeepaliveTime (config s))) \<and> r = c")
    case True
    then have "lastSendTime (heap s' r) = clock w (clock_reads w)" "clock_reads w' = Suc (clock_reads w)"
      using eq by (auto simp: sendPing_eq set_lastSendTime_def split: sum.splits)
    then have "clock_reads w \<le> clock_reads w \<and> clock_reads w < clock_reads w' \<and>
               lastSendTime (heap s' r) = clock w (clock_reads w)" by simp
    then show ?thesis by blast
  next
    case False
    then have "lastSendTime (heap s' r) = lastSendTime (heap s r)"
      using eq by (auto simp: set_lastSendTime_def)
    then show ?thesis by simp
  qed
  show ?thesis
    unfolding pass_frame_def using w ls eq
    by (auto simp: set_lastSendTime_def)
qed

lemma checkClientTimeouts_loop_frame:
  "checkClientTimeouts_loop cd now ks nct (s, w) = (n', s', w') \<Longrightarrow> pass_frame (s, w) (s', w')"
proof (induction ks arbitrary: nct s w)
  case Nil
  then show ?case by simp
next
  case (Cons k ks)
  show ?case
  proof (cases "clients s k")
    case None
    with Cons show ?thesis by simp
  next
    case (Some c)
    obtain n1 s1 w1 where b: "checkClientTimeouts_body cd now c nct (s, w) = (n1, s1, w1)"
      by (cases "checkClientTimeouts_body cd now c nct (s, w)")
    have "checkClientTimeouts_loop cd now ks n1 (s1, w1) = (n', s', w')"
      using Cons.prems Some b by simp
    then have "pass_frame (s1, w1) (s', w')" by (rule Cons.IH)
    with checkClientTimeouts_body_frame[OF b] show ?thesis by (rule pass_frame_trans)
  qed
qed

lemma consistent_key:
  "registry_consistent s \<Longrightarrow> clients s k = Some c \<Longrightarrow>
   String (addr (heap s c)) = k \<and> clientsByIPX s (ipxAddr (heap s c)) = Some c"
  by (simp add: registry_consistent_def)

lemma checkClientTimeouts_loop_evicts:
  assumes "registry_consistent s" and "clients s k = Some c" and "k \<in> set ks"
    and "After now (Add (lastReceiveTime (heap s c)) (ClientTimeout (config s)))"
    and "checkClientTimeouts_loop cd now ks nct (s, w) = (n', s', w')"
  shows "clients s' k = None \<and> clientsByIPX s' (ipxAddr (heap s c)) = None"
  using assms
proof (induction ks arbitrary: nct s w)
  case Nil
  then show ?case by simp
next
  case (Cons k' ks)
  show ?case
  proof (cases "clients s k'")
    case None
    with Cons.prems have "k \<in> set ks" "checkClientTimeouts_loop cd now ks nct (s, w) = (n', s', w')"
      by auto
    with Cons.IH Cons.prems(1,2,4) show ?thesis by blast
  next
    case (Some c')
    obtain n1 s1 w1 where b: "checkClientTimeouts_body cd now c' nct (s, w) = (n1, s1, w1)"
      by (cases "checkClientTimeouts_body cd now c' nct (s, w)")
    have rest: "checkClientTimeouts_loop cd now ks n1 (s1, w1) = (n', s', w')"
      using Cons.prems(5) Some b by simp
    have c1: "registry_consistent s1"
      by (rule checkClientTimeouts_body_consistent[OF Cons.prems(1) Some b])
    have f1: "pass_frame (s, w) (s1, w1)" by (rule checkClientTimeouts_body_frame[OF b])
    have f2: "pass_frame (s1, w1) (s', w')" by (rule checkClientTimeouts_loop_frame[OF rest])
    note eq = checkClientTimeouts_body_eq[OF b, unfolded Let_def]
    note key = consistent_key[OF Cons.prems(1)]
    show ?thesis
    proof (cases "k' = k")
      case True
      with Some Cons.prems(2) have cc: "c' = c" by simp
      have "clients s1 k = None" "clientsByIPX s1 (ipxAddr (heap s c)) = None"
        using eq Cons.prems(4) key[OF Cons.prems(2)] cc by auto
      moreover have "clients s' k = None \<or> clients s' k = clients s1 k"
        "clientsByIPX s' (ipxAddr (heap s c)) = None \<or>
         clientsByIPX s' (ipxAddr (heap s c)) = clientsByIPX s1 (ipxAddr (heap s c))"
        using f2 by (simp_all add: pass_frame_def)
      ultimately show ?thesis by auto
    next
      case False
      then have "String (addr (heap s c')) \<noteq> k" using key[OF Some] by simp
      then have k1: "clients s1 k = Some c"
        using eq Cons.prems(2) by (auto simp: set_lastSendTime_def split: if_splits)
      have same: "lastReceiveTime (heap s1 c) = lastReceiveTime (heap s c)"
        "ipxAddr (heap s1 c) = ipxAddr (heap s c)" "config s1 = config s"
        using f1 by (simp_all add: pass_frame_def)
      have "k \<in> set ks" using False Cons.prems(3) by simp
      moreover have "After now (Add (lastReceiveTime (heap s1 c)) (ClientTimeout (config s1)))"
        using Cons.prems(4) same by simp
      ultimately have "clients s' k = None \<and> clientsByIPX s' (ipxAddr (heap s1 c)) = None"
        using Cons.IH[OF c1 k1 _ _ rest] by blast
      with same show ?thesis by simp
    qed
  qed
qed

lemma set_drop_mono: "m \<le> n \<Longrightarrow> set (drop n xs) \<subseteq> set (drop m xs)"
  by (metis drop_drop le_add_diff_inverse2 set_drop_subset)

lemma checkClientTimeouts_loop_pings:
  assumes "registry_consistent s" and "clients s k = Some c" and "k \<in> set ks"
    and "After now (Add (lastSendTime (heap s c)) (KeepaliveTime (config s)))"
    and "checkClientTimeouts_loop cd now ks nct (s, w) = (n', s', w')"
  shows "(\<exists>i. clock_reads w \<le> i \<and> i < clock_reads w' \<and> lastSendTime (heap s' c) = clock w i) \<and>
         (\<forall>encodedHeader. MarshalBinary cd sendPing_header = Inr encodedHeader \<longrightarrow>
            (encodedHeader, addr (heap s c)) \<in> set (drop (length (sent w)) (sent w')))"
  using assms
proof (induction ks arbitrary: nct s w)
  case Nil
  then show ?case by simp
next
  case (Cons k' ks)
  show ?case
  proof (cases "clients s k'")
    case None
    with Cons.prems have "k \<in> set ks" "checkClientTimeouts_loop cd now ks nct (s, w) = (n', s', w')"
      by auto
    with Cons.IH Cons.prems(1,2,4) show ?thesis by blast
  next
    case (Some c')
    obtain n1 s1 w1 where b: "checkClientTimeouts_body cd now c' nct (s, w) = (n1, s1, w1)"
      by (cases "checkClientTimeouts_body cd now c' nct (s, w)")
    have rest: "checkClientTimeouts_loop cd now ks n1 (s1, w1) = (n', s', w')"
      using Cons.prems(5) Some b by simp
    have c1: "registry_consistent s1"
      by (rule checkClientTimeouts_body_consistent[OF Cons.prems(1) Some b])
    have f1: "pass_frame (s, w) (s1, w1)" by (rule checkClientTimeouts_body_frame[OF b])
    have f2: "pass_frame (s1, w1) (s', w')" by (rule checkClientTimeouts_loop_frame[OF rest])
    have e1: "world_extends w w1" and e2: "world_extends w1 w'"
      using f1 f2 by (simp_all add: pass_frame_def)
    note eq = checkClientTimeouts_body_eq[OF b, unfolded Let_def]
    note key = consistent_key[OF Cons.prems(1)]
    show ?thesis
    proof (cases "k' = k")
      case True
      with Some Cons.prems(2) have cc: "c' = c" by simp
      have w1: "w1 = snd (sendPing cd c (s, w))"
        using eq Cons.prems(4) cc by simp
      have t1: "lastSendTime (heap s1 c) = clock w (clock_reads w)"
        using eq Cons.prems(4) cc by (auto simp: set_lastSendTime_def)
      obtain xs where xs: "sent w' = sent w1 @ xs"
        using e2 by (auto simp: world_extends_def)
      have snt: "(encodedHeader, addr (heap s c)) \<in> set (drop (length (sent w)) (sent w'))"
        if "MarshalBinary cd sendPing_header = Inr encodedHeader" for encodedHeader
        using that xs by (simp add: w1 sendPing_eq)
      have cr: "clock w1 = clock w" "clock_reads w1 = Suc (clock_reads w)"
        by (simp_all add: w1 sendPing_eq split: sum.splits)
      have cr': "clock_reads w1 \<le> clock_reads w'"
        using e2 by (simp add: world_extends_def)
      have "lastSendTime (heap s' c) = lastSendTime (heap s1 c) \<or>
            (\<exists>i. clock_reads w1 \<le> i \<and> i < clock_reads w' \<and> lastSendTime (heap s' c) = clock w1 i)"
        using f2 by (simp add: pass_frame_def)
      then have "\<exists>i. clock_reads w \<le> i \<and> i < clock_reads w' \<and> lastSendTime (heap s' c) = clock w i"
      proof
        assume "lastSendTime (heap s' c) = lastSendTime (heap s1 c)"
        with t1 cr cr' have "clock_reads w \<le> clock_reads w \<and> clock_reads w < clock_reads w' \<and>
                         lastSendTime (heap s' c) = clock w (clock_reads w)" by simp
        then show ?thesis by blast
      next
        assume "\<exists>i. clock_reads w1 \<le> i \<and> i < clock_reads w' \<and> lastSendTime (heap s' c) = clock w1 i"
        then obtain i where "clock_reads w1 \<le> i" "i < clock_reads w'" "lastSendTime (heap s' c) = clock w1 i"
          by blast
        with cr have "clock_reads w \<le> i \<and> i < clock_reads w' \<and> lastSendTime (heap s' c) = clock w i"
          by simp
        then show ?thesis by blast
      qed
      with snt show ?thesis by simp
    next
      case False
      then have ne: "String (addr (heap s c')) \<noteq> k" using key[OF Some] by simp
      then have k1: "clients s1 k = Some c"
        using eq Cons.prems(2) by (auto simp: set_lastSendTime_def split: if_splits)
      have "c' \<noteq> c" using ne key[OF Cons.prems(2)] by auto
      then have hc: "heap s1 c = heap s c"
        using eq by (auto simp: set_lastSendTime_def split: if_splits)
      have cf: "config s1 = config s" using f1 by (simp add: pass_frame_def)
      have "k \<in> set ks" using False Cons.prems(3) by simp
      moreover have "After now (Add (lastSendTime (heap s1 c)) (KeepaliveTime (config s1)))"
        using Cons.prems(4) hc cf by simp
      ultimately have ih:
        "(\<exists>i. clock_reads w1 \<le> i \<and> i < clock_reads w' \<and> lastSendTime (heap s' c) = clock w1 i) \<and>
         (\<forall>encodedHeader. MarshalBinary cd sendPing_header = Inr encodedHeader \<longrightarrow>
            (encodedHeader, addr (heap s1 c)) \<in> set (drop (length (sent w1)) (sent w')))"
        using Cons.IH[OF c1 k1 _ _ rest] by blast
      have cr: "clock w1 = clock w" "clock_reads w \<le> clock_reads w1" "length (sent w) \<le> length (sent w1)"
        using e1 by (auto simp: world_extends_def)
      from ih obtain i where "clock_reads w1 \<le> i" "i < clock_reads w'" "lastSendTime (heap s' c) = clock w1 i"
        by blast
      with cr have "clock_reads w \<le> i \<and> i < clock_reads w' \<and> lastSendTime (heap s' c) = clock w i"
        by simp
      then have "\<exists>i. clock_reads w \<le> i \<and> i < clock_reads w' \<and> lastSendTime (heap s' c) = clock w i"
        by blast
      moreover have "(encodedHeader, addr (heap s c)) \<in> set (drop (length (sent w)) (sent w'))"
        if "MarshalBinary cd sendPing_header = Inr encodedHeader" for encodedHeader
        using that ih hc set_drop_mono[OF cr(3), of "sent w'"] by auto
      ultimately show ?thesis by simp
    qed
  qed
qed

lemma newAddress_first_candidate:
  assumes "newAddress_fill 1 ((replicate 6 0)[0 := 2]) w = (a, w')"
    and "a \<noteq> AddrNull" and "a \<noteq> AddrBroadcast" and "a \<noteq> addrPingReply"
    and "clientsByIPX s a = None"
  shows "newAddress s w = Some (a, w')"
  using assms unfolding newAddress_def
  by (subst newAddress_loop.simps) simp

lemma example_server2_consistent: "registry_consistent example_server2"
  using example_server2_reachable by (rule reachable_consistent)

lemma example_order_range: "range_order example_order example_server2"
  by (auto simp: range_order_def example_order_def example_server2_def)

lemmas pass_simps =
  checkClientTimeouts_def checkClientTimeouts_body_def sendPing_def sendPing_header_def Second_def

lemma processPacket_registration_known:
  assumes "UnmarshalBinary cd packet = Inr header" and "IsRegistrationPacket header"
    and "clients s (String a) = Some c" and "processPacket cd packet a ks (s, w) = Some (s', w')"
  shows "s' = set_lastSendTime c (fst (time_Now w)) s"
  using assms
  by (auto simp: processPacket_def newClient_def newClient_lookup_def Let_def
      split: prod.splits sum.splits)

lemma broadcast_targets_Nil [simp]: "broadcast_targets header s [] = []"
  by (simp add: broadcast_targets_def map_filter_simps)

lemma broadcast_targets_Cons:
  "broadcast_targets header s (k # ks) =
     (case clients s k of
        None \<Rightarrow> broadcast_targets header s ks
      | Some c \<Rightarrow> if ipxAddr (heap s c) = Addr (Src header) then broadcast_targets header s ks
                  else addr (heap s c) # broadcast_targets header s ks)"
  by (simp add: broadcast_targets_def map_filter_simps split: option.splits)

lemma broadcast_targets_identities:
  "same_identities s s' \<Longrightarrow> broadcast_targets header s' ks = broadcast_targets header s ks"
  by (induction ks) (auto simp: broadcast_targets_Cons same_identities_def split: option.splits)

lemma forwardBroadcastPacket_loop_sent:
  "forwardBroadcastPacket_loop header packet ks err (s, w) = (err', s', w') \<Longrightarrow>
   sent w' = sent w @ map (Pair packet) (broadcast_targets header s ks) \<and>
   write_result w' = write_result w \<and>
   err' = (if broadcast_targets header s ks = [] then err
           else write_result w (length (sent w') - 1))"
proof (induction ks arbitrary: err s w)
  case Nil
  then show ?case by simp
next
  case (Cons k ks)
  show ?case
  proof (cases "clients s k")
    case None
    with Cons show ?thesis by (simp add: broadcast_targets_Cons)
  next
    case (Some c)
    show ?thesis
    proof (cases "ipxAddr (heap s c) = Addr (Src header)")
      case True
      with Some Cons show ?thesis by (simp add: broadcast_targets_Cons)
    next
      case False
      let ?s1 = "set_lastSendTime c (clock w (clock_reads w)) s"
      let ?w2 = "w\<lparr>clock_reads := Suc (clock_reads w), sent := sent w @ [(packet, addr (heap s c))]\<rparr>"
      let ?e1 = "write_result w (length (sent w))"
      have step: "forwardBroadcastPacket_loop header packet ks ?e1 (?s1, ?w2) = (err', s', w')"
        using Cons.prems Some False
        by (simp add: time_Now_def WriteToUDP_def set_lastSendTime_def)
      have tg: "broadcast_targets header ?s1 ks = broadcast_targets header s ks"
        by (rule broadcast_targets_identities) simp
      note ih = Cons.IH[OF step, unfolded tg]
      have t: "broadcast_targets header s (k # ks) = addr (heap s c) # broadcast_targets header s ks"
        using Some False by (simp add: broadcast_targets_Cons)
      show ?thesis
        using ih by (auto simp: t)
    qed
  qed
qed

lemma last_send_result_outcomes:
  assumes "sent w' = sent w @ xs"
  shows "last_send_result (send_outcomes w w') =
           (if xs = [] then None else write_result w (length (sent w') - 1))"
proof (cases xs rule: rev_cases)
  case Nil
  with assms show ?thesis by (simp add: send_outcomes_def last_send_result_def)
next
  case (snoc ys y)
  have "[length (sent w)..<length (sent w')] =
          [length (sent w)..<length (sent w) + length ys] @ [length (sent w) + length ys]"
    using assms snoc by simp
  then have "send_outcomes w w' =
               map (write_result w) [length (sent w)..<length (sent w) + length ys] @
               [write_result w (length (sent w) + length ys)]"
    by (simp add: send_outcomes_def)
  then show ?thesis
    using assms snoc by (simp add: last_send_result_def)
qed

lemma broadcast_targets_set:
  "set (broadcast_targets header s ks) =
     {addr (heap s c) | k c. k \<in> set ks \<and> clients s k = Some c \<and> ipxAddr (heap s c) \<noteq> Addr (Src header)}"
  by (induction ks) (auto simp: broadcast_targets_Cons split: option.splits)

lemma example_server3_registered:
  "\<exists>w'. processPacket example_codec (example_packet AddrNull AddrNull)
          (UDPAddr ''10.0.0.3:213'') [] (example_server2, example_world) = Some (example_server3, w')"
  by (simp add: example_simps example_server3_def run_simps fun_upd_twist)

lemma example_server3_reachable: "reachable example_codec example_server3"
  using example_server3_registered example_server2_reachable
  by (blast intro: reach_processPacket)

lemma example_server3_consistent: "registry_consistent example_server3"
  using example_server3_reachable by (rule reachable_consistent)

lemma example_order3_range: "range_order example_order3 example_server3"
  by (auto simp: range_order_def example_order3_def example_server3_def)

lemmas broadcast_simps =
  example_broadcast_def example_server3_def example_order3_def example_world_failing_def
  forwardPacket_def forwardBroadcastPacket_def send_outcomes_def

lemma newAddress_loop_step:
  assumes "newAddress_fill 1 (result[0 := 2]) w = (r', w')"
  shows "newAddress_loop s result w =
           (if candidate_free s r' then Some (r', w') else newAddress_loop s r' w')"
  using assms
  by (subst newAddress_loop.simps) (auto simp: candidate_free_def)

lemma newAddress_loop_returns:
  "candidate_free s (fst (newAddress_rounds (Suc n) (result, w))) \<Longrightarrow>
   \<exists>y. newAddress_loop s result w = Some y"
proof (induction n arbitrary: result w)
  case 0
  obtain r' w' where f: "newAddress_fill 1 (result[0 := 2]) w = (r', w')"
    by (cases "newAddress_fill 1 (result[0 := 2]) w")
  with 0 have "candidate_free s r'" by simp
  then show ?case using newAddress_loop_step[OF f] by simp
next
  case (Suc n)
  obtain r' w' where f: "newAddress_fill 1 (result[0 := 2]) w = (r', w')"
    by (cases "newAddress_fill 1 (result[0 := 2]) w")
  show ?case
  proof (cases "candidate_free s r'")
    case True
    then show ?thesis using newAddress_loop_step[OF f] by simp
  next
    case False
    have "candidate_free s (fst (newAddress_rounds (Suc n) (r', w')))"
      using Suc.prems f by simp
    then have "\<exists>y. newAddress_loop s r' w' = Some y" by (rule Suc.IH)
    with False show ?thesis using newAddress_loop_step[OF f, of s] by simp
  qed
qed

lemma record_kept_refl [simp]: "record_kept c s s"
  by (simp add: record_kept_def)

lemma record_kept_trans: "record_kept c s s1 \<Longrightarrow> record_kept c s1 s2 \<Longrightarrow> record_kept c s s2"
  by (simp add: record_kept_def)

lemma record_kept_set_lastSendTime [simp]: "record_kept c s (set_lastSendTime r t s)"
  by (simp add: record_kept_def set_lastSendTime_def)

lemma forwardBroadcastPacket_loop_kept:
  "record_kept c s (fst (snd (forwardBroadcastPacket_loop header packet ks err (s, w))))"
proof (induction ks arbitrary: err s w)
  case Nil
  show ?case by simp
next
  case (Cons k ks)
  show ?case
  proof (cases "clients s k")
    case None
    then show ?thesis using Cons by simp
  next
    case (Some r)
    show ?thesis
    proof (cases "ipxAddr (heap s r) = Addr (Src header)")
      case True
      then show ?thesis using Some Cons by simp
    next
      case False
      obtain now w1 where n: "time_Now w = (now, w1)" by (cases "time_Now w")
      let ?s1 = "set_lastSendTime r now s"
      obtain e w2 where wr: "WriteToUDP packet (addr (heap ?s1 r)) w1 = (e, w2)"
        by (cases "WriteToUDP packet (addr (heap ?s1 r)) w1")
      have "record_kept c ?s1 (fst (snd (forwardBroadcastPacket_loop header packet ks e (?s1, w2))))"
        by (rule Cons)
      then have "record_kept c s (fst (snd (forwardBroadcastPacket_loop header packet ks e (?s1, w2))))"
        by (rule record_kept_trans[OF record_kept_set_lastSendTime])
      then show ?thesis
        using Some False n wr by simp
    qed
  qed
qed

lemma forwardPacket_kept:
  "forwardPacket header packet ks (s, w) = (e, s', w') \<Longrightarrow> record_kept c s s'"
  using forwardBroadcastPacket_loop_kept[of c s header packet ks None w]
  by (auto simp: forwardPacket_def forwardBroadcastPacket_def Let_def
      split: option.splits prod.splits if_splits)

lemma newClient_kept:
  assumes "c < next_ref s" and "newClient cd header b (s, w) = Some (s', w')"
  shows "record_kept c s s'"
proof -
  from assms(2) obtain r s1 w1 where lk: "newClient_lookup b (s, w) = Some (r, s1, w1)"
    by (auto simp: newClient_def split: option.splits)
  have "record_kept c s s1"
    using lk assms(1)
    by (auto simp: newClient_lookup_def record_kept_def Let_def split: option.splits prod.splits)
  moreover have "s' = set_lastSendTime r (fst (time_Now w1)) s1"
    using assms(2) lk by (auto simp: newClient_def Let_def split: prod.splits sum.splits)
  ultimately show ?thesis
    using record_kept_trans by simp
qed

lemma processPacket_kept:
  assumes "registry_consistent s" and "c < next_ref s"
    and "processPacket cd packet b ks (s, w) = Some (s', w')"
    and "String b \<noteq> String (addr (heap s c)) \<or>
         (\<exists>header. UnmarshalBinary cd packet = Inr header \<and> IsRegistrationPacket header)"
  shows "record_kept c s s'"
proof (cases "UnmarshalBinary cd packet")
  case (Inl e)
  with assms(3) show ?thesis by (simp add: processPacket_def)
next
  case (Inr header)
  show ?thesis
  proof (cases "IsRegistrationPacket header")
    case True
    with assms(2,3) Inr show ?thesis by (auto simp: processPacket_def intro: newClient_kept)
  next
    case False
    with assms(4) Inr have nb: "String b \<noteq> String (addr (heap s c))" by simp
    show ?thesis
    proof (cases "clients s (String b)")
      case None
      with assms(3) Inr False show ?thesis by (simp add: processPacket_def)
    next
      case (Some r)
      have "String (addr (heap s r)) = String b"
        using consistent_key[OF assms(1) Some] by simp
      with nb have rc: "r \<noteq> c" by auto
      show ?thesis
      proof (cases "Addr (Src header) \<noteq> ipxAddr (heap s r)")
        case True
        with assms(3) Inr False Some show ?thesis by (simp add: processPacket_def)
      next
        case ok: False
        obtain now w1 where n: "time_Now w = (now, w1)" by (cases "time_Now w")
        obtain e s2 w2 where f: "forwardPacket header packet ks (set_lastReceiveTime r now s, w1) = (e, s2, w2)"
          by (cases "forwardPacket header packet ks (set_lastReceiveTime r now s, w1)")
        have "record_kept c s (set_lastReceiveTime r now s)"
          using rc by (simp add: record_kept_def set_lastReceiveTime_def)
        then have "record_kept c s s2"
          using forwardPacket_kept[OF f] record_kept_trans by blast
        moreover have "tap_publish packet (s2, w2) = Some (s', w')"
          using assms(3) Inr False Some ok n f by (simp add: processPacket_def)
        ultimately show ?thesis
          by (auto simp: record_kept_def dest: tap_publish_registry)
      qed
    qed
  qed
qed

lemma checkClientTimeouts_kept:
  "checkClientTimeouts cd ks (s, w) = (t, s', w') \<Longrightarrow> record_kept c s s'"
  by (auto simp: checkClientTimeouts_def record_kept_def pass_frame_def split: prod.splits
      dest!: checkClientTimeouts_loop_frame)

lemma Write_kept:
  "Write cd packet ks (s, w) = (r, s', w') \<Longrightarrow> record_kept c s s'"
  by (auto simp: Write_def split: sum.splits prod.splits option.splits dest: forwardPacket_kept)

lemma quiet_run_kept:
  assumes "quiet_run cd a sw sw1" and "registry_consistent (fst sw)"
    and "clients (fst sw) (String a) = Some c"
  shows "registry_consistent (fst sw1) \<and> record_kept c (fst sw) (fst sw1)"
  using assms
proof (induction rule: quiet_run.induct)
  case (quiet_none sw)
  then show ?case by simp
next
  case (quiet_registration sw sw1 packet header ks sw2)
  then have ih: "registry_consistent (fst sw1)" "record_kept c (fst sw) (fst sw1)" by simp_all
  have "c < next_ref (fst sw)"
    using quiet_registration.prems by (simp add: registry_consistent_def)
  then have lt: "c < next_ref (fst sw1)" using ih(2) by (simp add: record_kept_def)
  have p: "processPacket cd packet a ks (fst sw1, snd sw1) = Some (fst sw2, snd sw2)"
    using quiet_registration.hyps by simp
  have "record_kept c (fst sw1) (fst sw2)"
    using processPacket_kept[OF ih(1) lt p] quiet_registration.hyps by blast
  with ih(2) processPacket_consistent[OF ih(1) p] show ?case
    using record_kept_trans by blast
next
  case (quiet_other sw sw1 b packet ks sw2)
  then have ih: "registry_consistent (fst sw1)" "record_kept c (fst sw) (fst sw1)" by simp_all
  have "c < next_ref (fst sw)" "String (addr (heap (fst sw) c)) = String a"
    using quiet_other.prems by (simp_all add: registry_consistent_def)
  then have lt: "c < next_ref (fst sw1)" and ad: "String b \<noteq> String (addr (heap (fst sw1) c))"
    using ih(2) quiet_other.hyps by (simp_all add: record_kept_def)
  have p: "processPacket cd packet b ks (fst sw1, snd sw1) = Some (fst sw2, snd sw2)"
    using quiet_other.hyps by simp
  have "record_kept c (fst sw1) (fst sw2)"
    using processPacket_kept[OF ih(1) lt p] ad by blast
  with ih(2) processPacket_consistent[OF ih(1) p] show ?case
    using record_kept_trans by blast
next
  case (quiet_pass sw s1 w1 ks t s2 w2)
  then have ih: "registry_consistent s1" "record_kept c (fst sw) s1" by simp_all
  have "registry_consistent s2"
    using checkClientTimeouts_consistent[OF ih(1) quiet_pass.hyps(2)] .
  moreover have "record_kept c (fst sw) s2"
    using ih(2) checkClientTimeouts_kept[OF quiet_pass.hyps(2)] record_kept_trans by blast
  ultimately show ?case by (simp add: registry_consistent_def record_kept_def)
next
  case (quiet_Write sw sw1 packet ks r sw2)
  then have ih: "registry_consistent (fst sw1)" "record_kept c (fst sw) (fst sw1)" by simp_all
  have p: "Write cd packet ks (fst sw1, snd sw1) = (r, fst sw2, snd sw2)"
    using quiet_Write.hyps by simp
  show ?case
    using Write_consistent[OF ih(1) p] Write_kept[OF p] ih(2) record_kept_trans by blast
qed

lemma example_quiet_run:
  "quiet_run example_codec (UDPAddr ''10.0.0.1:213'') (example_server2, example_world_late)
     example_quiet"
proof -
  have "quiet_run example_codec (UDPAddr ''10.0.0.1:213'') (example_server2, example_world_late)
          example_reregistered"
  proof (rule quiet_registration[OF quiet_none])
    show "UnmarshalBinary example_codec (example_packet AddrNull AddrNull) =
            Inr (example_header AddrNull AddrNull)"
      by (simp add: example_simps)
    show "IsRegistrationPacket (example_header AddrNull AddrNull)"
      by (simp add: example_simps IsRegistrationPacket_def)
    show "processPacket example_codec (example_packet AddrNull AddrNull) (UDPAddr ''10.0.0.1:213'')
            example_order (example_server2, example_world_late) = Some example_reregistered"
      by (simp add: example_reregistered_def example_simps example_world_late_def run_simps)
  qed
  then show ?thesis
  proof (rule quiet_other)
    show "String (UDPAddr ''10.0.0.2:213'') \<noteq> String (UDPAddr ''10.0.0.1:213'')" by simp
    show "processPacket example_codec (example_packet example_addr_A example_addr_B)
            (UDPAddr ''10.0.0.2:213'') example_order example_reregistered = Some example_quiet"
      by (simp add: example_quiet_def example_reregistered_def example_simps example_world_late_def
          run_simps forwardPacket_def tap_publish_def)
  qed
qed

section \<open>The claims\<close>

text \<open>
  C1, as stated, fails: with three clients, a broadcast from the first is sent to the
  second, where the send fails, and then to the third, where it succeeds. The call
  returns no error, while the last error encountered among the send attempts is the
  error of the first attempt.
\<close>

theorem broadcast_last_error_counterexample:
  "IsBroadcast (example_header AddrBroadcast example_addr_A) \<and>
   send_outcomes example_world_failing (snd (snd example_broadcast)) = [Some (IOError 1), None] \<and>
   last_error_encountered (send_outcomes example_world_failing (snd (snd example_broadcast))) =
     Some (IOError 1) \<and>
   fst example_broadcast = None \<and>
   fst example_broadcast \<noteq>
     last_error_encountered (send_outcomes example_world_failing (snd (snd example_broadcast)))"
  by (simp add: broadcast_simps example_simps run_simps last_error_encountered_def upt_rec)

text \<open>
  C1, amended. A broadcast packet is handed to the socket once for every client record
  whose protocol address is not the header's source address, in the order of the range
  loop and whatever the outcome of the individual sends; in a consistent registry none
  goes to the endpoint of the sender. The value returned is the result of the last send
  attempt: the error of that attempt if it failed, and no error if it succeeded or if
  no send was attempted.
\<close>

theorem broadcast_fanout:
  assumes "IsBroadcast header" and "range_order ks s"
    and "forwardPacket header packet ks (s, w) = (err, s', w')"
  shows "sent w' = sent w @ map (Pair packet) (broadcast_targets header s ks) \<and>
         (\<forall>k c. clients s k = Some c \<and> ipxAddr (heap s c) \<noteq> Addr (Src header) \<longrightarrow>
                (packet, addr (heap s c)) \<in> set (drop (length (sent w)) (sent w'))) \<and>
         (registry_consistent s \<longrightarrow>
            (\<forall>k c. clients s k = Some c \<and> ipxAddr (heap s c) = Addr (Src header) \<longrightarrow>
                   (packet, addr (heap s c)) \<notin> set (drop (length (sent w)) (sent w')))) \<and>
         err = last_send_result (send_outcomes w w')"
proof -
  let ?ts = "broadcast_targets header s ks"
  have l: "forwardBroadcastPacket_loop header packet ks None (s, w) = (err, s', w')"
    using assms(1,3) by (simp add: forwardPacket_def forwardBroadcastPacket_def)
  note r = forwardBroadcastPacket_loop_sent[OF l]
  have snt: "sent w' = sent w @ map (Pair packet) ?ts" using r by simp
  then have new: "set (drop (length (sent w)) (sent w')) = Pair packet ` set ?ts" by simp
  have ks: "set ks = dom (clients s)" using assms(2) by (simp add: range_order_def)
  have inc: "(packet, addr (heap s c)) \<in> set (drop (length (sent w)) (sent w'))"
    if "clients s k = Some c" "ipxAddr (heap s c) \<noteq> Addr (Src header)" for k c
  proof -
    have "k \<in> set ks" using that(1) ks by auto
    then have "addr (heap s c) \<in> set ?ts"
      using that by (auto simp: broadcast_targets_set)
    then show ?thesis by (simp add: new)
  qed
  have exc: "(packet, addr (heap s c)) \<notin> set (drop (length (sent w)) (sent w'))"
    if cons: "registry_consistent s" and c: "clients s k = Some c"
      and src: "ipxAddr (heap s c) = Addr (Src header)" for k c
  proof
    assume "(packet, addr (heap s c)) \<in> set (drop (length (sent w)) (sent w'))"
    then have "addr (heap s c) \<in> set ?ts" by (auto simp: new)
    then obtain k' c' where k': "clients s k' = Some c'" "addr (heap s c') = addr (heap s c)"
      "ipxAddr (heap s c') \<noteq> Addr (Src header)"
      by (auto simp: broadcast_targets_set)
    have "String (addr (heap s c')) = k'" "String (addr (heap s c)) = k"
      using consistent_key[OF cons] k'(1) c by simp_all
    with k'(2) have "k' = k" by simp
    with k'(1) c have "c' = c" by simp
    with k'(3) src show False by simp
  qed
  have "err = last_send_result (send_outcomes w w')"
    using r last_send_result_outcomes[OF snt] by simp
  with snt inc exc show ?thesis by blast
qed

theorem broadcast_fanout_witness:
  "IsBroadcast (example_header AddrBroadcast example_addr_A) \<and>
   range_order example_order3 example_server3 \<and> registry_consistent example_server3 \<and>
   sent (snd (snd example_broadcast)) =
     [(example_packet AddrBroadcast example_addr_A, UDPAddr ''10.0.0.2:213''),
      (example_packet AddrBroadcast example_addr_A, UDPAddr ''10.0.0.3:213'')] \<and>
   send_outcomes example_world_failing (snd (snd example_broadcast)) = [Some (IOError 1), None] \<and>
   fst example_broadcast = last_send_result [Some (IOError 1), None]"
  using broadcast_fanout [OF _ example_order3_range,
      of "example_header AddrBroadcast example_addr_A" "example_packet AddrBroadcast example_addr_A"
         example_world_failing "fst example_broadcast" "fst (snd example_broadcast)"
         "snd (snd example_broadcast)"]
    example_order3_range example_server3_consistent
  by (simp add: broadcast_simps example_simps run_simps last_send_result_def upt_rec
      broadcast_targets_Cons)

text \<open>
  C2. In every reachable server state no two distinct endpoints hold the same allocated
  protocol address, and the two registry maps are consistent as a pair: every record
  indexed under an endpoint is indexed under its address and the other way round.
  Reachability is closed under registration, forwarding and eviction, so every operation
  preserves the property.
\<close>

theorem registry_invariant:
  "reachable cd s \<Longrightarrow> addresses_unique s \<and> registry_consistent s"
  using reachable_consistent consistent_unique by blast

theorem registry_invariant_witness:
  "reachable example_codec example_server2 \<and>
   clients example_server2 ''10.0.0.1:213'' = Some 0 \<and>
   clients example_server2 ''10.0.0.2:213'' = Some 1 \<and>
   addresses_unique example_server2 \<and> registry_consistent example_server2"
  using registry_invariant [OF example_server2_reachable] example_server2_reachable
  by (simp add: example_server2_def)

text \<open>
  C3. A unicast packet whose destination address has no registered client makes
  \<open>forwardPacket\<close> return \<open>UnknownClientError\<close> with the server and the socket log
  unchanged, so no datagram is sent; \<open>Write\<close> returns that error with count 0, and when
  forwarding reports no error \<open>Write\<close> returns the length of the packet.
\<close>

theorem unknown_destination:
  "(\<not> IsBroadcast header \<and> clientsByIPX s (Addr (Dest header)) = None \<longrightarrow>
      forwardPacket header packet ks (s, w) = (Some UnknownClientError, s, w) \<and>
      (UnmarshalBinary cd packet = Inr header \<longrightarrow>
         Write cd packet ks (s, w) = ((0, Some UnknownClientError), s, w))) \<and>
   (UnmarshalBinary cd packet = Inr header \<and>
    fst (forwardPacket header packet ks (s, w)) = None \<longrightarrow>
      Write cd packet ks (s, w) =
        ((length packet, None), snd (forwardPacket header packet ks (s, w))))"
  by (auto simp: forwardPacket_def Write_def split: prod.splits option.splits)

theorem unknown_destination_witness:
  "\<not> IsBroadcast (example_header example_addr_C example_addr_A) \<and>
   clientsByIPX example_server2 (Addr (Dest (example_header example_addr_C example_addr_A))) = None \<and>
   UnmarshalBinary example_codec (example_packet example_addr_C example_addr_A) =
     Inr (example_header example_addr_C example_addr_A) \<and>
   forwardPacket (example_header example_addr_C example_addr_A)
     (example_packet example_addr_C example_addr_A) example_order (example_server2, example_world) =
     (Some UnknownClientError, example_server2, example_world) \<and>
   Write example_codec (example_packet example_addr_C example_addr_A) example_order
     (example_server2, example_world) =
     ((0, Some UnknownClientError), example_server2, example_world) \<and>
   UnmarshalBinary example_codec (example_packet example_addr_B example_addr_A) =
     Inr (example_header example_addr_B example_addr_A) \<and>
   fst (forwardPacket (example_header example_addr_B example_addr_A)
     (example_packet example_addr_B example_addr_A) example_order (example_server2, example_world)) = None \<and>
   fst (Write example_codec (example_packet example_addr_B example_addr_A) example_order
     (example_server2, example_world)) = (30, None)"
  using unknown_destination [of "example_header example_addr_C example_addr_A" example_server2
      "example_packet example_addr_C example_addr_A" example_order example_world example_codec]
    unknown_destination [of "example_header example_addr_B example_addr_A" example_server2
      "example_packet example_addr_B example_addr_A" example_order example_world example_codec]
  by (simp add: example_simps forwardPacket_def run_simps)

text \<open>
  C4. A registration packet from an endpoint that is already in the registry leaves both
  maps and every client record as they are, except for the last-send time of that
  endpoint's record, so the allocated address stays; and the reply for that address,
  when the codec encodes it, is handed to the socket for the client's endpoint.
\<close>

theorem registration_idempotent:
  assumes "UnmarshalBinary cd packet = Inr header" and "IsRegistrationPacket header"
    and "clients s (String a) = Some c"
  shows "\<exists>s' w'. processPacket cd packet a ks (s, w) = Some (s', w') \<and>
           newClient cd header a (s, w) = Some (s', w') \<and>
           s' = set_lastSendTime c (fst (time_Now w)) s \<and>
           clients s' = clients s \<and> clientsByIPX s' = clientsByIPX s \<and>
           ipxAddr (heap s' c) = ipxAddr (heap s c) \<and>
           (\<forall>r. r \<noteq> c \<longrightarrow> heap s' r = heap s r) \<and>
           Addr (Dest (newClient_reply (ipxAddr (heap s c)))) = ipxAddr (heap s c) \<and>
           (\<forall>encodedReply.
              MarshalBinary cd (newClient_reply (ipxAddr (heap s c))) = Inr encodedReply \<longrightarrow>
              sent w' = sent w @ [(encodedReply, addr (heap s c))])"
proof -
  have lk: "newClient_lookup a (s, w) = Some (c, s, w)"
    using assms(3) by (simp add: newClient_lookup_def)
  let ?s' = "set_lastSendTime c (fst (time_Now w)) s"
  let ?reply = "newClient_reply (ipxAddr (heap s c))"
  let ?w' = "(case MarshalBinary cd ?reply of
               Inr encodedReply \<Rightarrow> snd (WriteToUDP encodedReply (addr (heap s c)) (snd (time_Now w)))
             | Inl err \<Rightarrow> snd (time_Now w))"
  have nc: "newClient cd header a (s, w) = Some (?s', ?w')"
    using lk by (simp add: newClient_def Let_def set_lastSendTime_def split: prod.splits sum.splits)
  have pp: "processPacket cd packet a ks (s, w) = Some (?s', ?w')"
    using assms(1,2) nc by (simp add: processPacket_def)
  have "\<forall>encodedReply. MarshalBinary cd ?reply = Inr encodedReply \<longrightarrow>
          sent ?w' = sent w @ [(encodedReply, addr (heap s c))]"
    by (simp add: WriteToUDP_def time_Now_def)
  then show ?thesis
    using nc pp by (simp add: set_lastSendTime_def newClient_reply_def)
qed

theorem registration_idempotent_witness:
  "UnmarshalBinary example_codec (example_packet AddrNull AddrNull) =
     Inr (example_header AddrNull AddrNull) \<and>
   IsRegistrationPacket (example_header AddrNull AddrNull) \<and>
   clients example_server2 (String (UDPAddr ''10.0.0.1:213'')) = Some 0 \<and>
   MarshalBinary example_codec (newClient_reply (ipxAddr (heap example_server2 0))) =
     Inr (example_reply example_addr_A) \<and>
   (\<exists>s' w'. processPacket example_codec (example_packet AddrNull AddrNull)
              (UDPAddr ''10.0.0.1:213'') example_order (example_server2, example_world) = Some (s', w') \<and>
      clients s' = clients example_server2 \<and> clientsByIPX s' = clientsByIPX example_server2 \<and>
      ipxAddr (heap s' 0) = example_addr_A \<and>
      sent w' = [(example_reply example_addr_A, UDPAddr ''10.0.0.1:213'')])"
  using registration_idempotent [of example_codec "example_packet AddrNull AddrNull"
      "example_header AddrNull AddrNull" example_server2 "UDPAddr ''10.0.0.1:213''" 0
      example_order example_world]
  by (simp add: example_simps example_reply_def run_simps)

text \<open>
  C5. Every address that \<open>newAddress\<close> returns is none of the null, broadcast and
  ping-source addresses, is not a key of the address-keyed map, hence in a consistent
  registry not the address of any registered client, and has 0x02 as its first of six
  bytes. The loop has no bound on its retries: \<open>newAddress\<close> returns as soon as some
  round of the random source produces a candidate that is not reserved and not in use.
\<close>

theorem newAddress_contract:
  "(\<forall>a w'. newAddress s w = Some (a, w') \<longrightarrow>
      a \<noteq> AddrNull \<and> a \<noteq> AddrBroadcast \<and> a \<noteq> addrPingReply \<and>
      clientsByIPX s a = None \<and>
      (registry_consistent s \<longrightarrow> (\<forall>k c. clients s k = Some c \<longrightarrow> ipxAddr (heap s c) \<noteq> a)) \<and>
      a ! 0 = 0x02 \<and> length a = 6) \<and>
   ((\<exists>n. candidate_free s (fst (newAddress_rounds (Suc n) (replicate 6 0x00, w)))) \<longrightarrow>
      (\<exists>a w'. newAddress s w = Some (a, w')))"
proof (intro conjI allI impI)
  fix a w' assume r: "newAddress s w = Some (a, w')"
  note ok = newAddress_sound[OF r, unfolded allocated_ok_def]
  show "a \<noteq> AddrNull" "a \<noteq> AddrBroadcast" "a \<noteq> addrPingReply" "clientsByIPX s a = None"
    "a ! 0 = 0x02" "length a = 6"
    using ok by simp_all
  fix k c assume "registry_consistent s" "clients s k = Some c"
  then have "clientsByIPX s (ipxAddr (heap s c)) = Some c" by (simp add: consistent_key)
  with ok show "ipxAddr (heap s c) \<noteq> a" by auto
next
  assume "\<exists>n. candidate_free s (fst (newAddress_rounds (Suc n) (replicate 6 0x00, w)))"
  then obtain n where "candidate_free s (fst (newAddress_rounds (Suc n) (replicate 6 0x00, w)))"
    by blast
  then have "\<exists>y. newAddress_loop s (replicate 6 0x00) w = Some y"
    by (rule newAddress_loop_returns)
  then show "\<exists>a w'. newAddress s w = Some (a, w')"
    by (simp add: newAddress_def)
qed

theorem newAddress_contract_witness:
  "newAddress example_server1 example_world = Some (example_addr_B, example_world\<lparr>rand_reads := 10\<rparr>) \<and>
   fst (newAddress_rounds (Suc 0) (replicate 6 0x00, example_world)) = example_addr_A \<and>
   \<not> candidate_free example_server1 example_addr_A \<and>
   fst (newAddress_rounds (Suc (Suc 0)) (replicate 6 0x00, example_world)) = example_addr_B \<and>
   candidate_free example_server1 example_addr_B \<and>
   registry_consistent example_server1 \<and>
   clients example_server1 ''10.0.0.1:213'' = Some 0 \<and>
   ipxAddr (heap example_server1 0) \<noteq> example_addr_B \<and>
   example_addr_B ! 0 = 0x02 \<and> length example_addr_B = 6"
proof -
  have r1: "fst (newAddress_rounds (Suc 0) (replicate 6 0x00, example_world)) = example_addr_A"
    and r2: "fst (newAddress_rounds (Suc (Suc 0)) (replicate 6 0x00, example_world)) = example_addr_B"
    by (simp_all add: example_simps run_simps)
  have f: "\<not> candidate_free example_server1 example_addr_A"
    "candidate_free example_server1 example_addr_B"
    by (simp_all add: example_simps candidate_free_def)
  have "\<exists>n. candidate_free example_server1
              (fst (newAddress_rounds (Suc n) (replicate 6 0x00, example_world)))"
    using r2 f(2) by (intro exI[of _ "Suc 0"]) simp
  then have "\<exists>a w'. newAddress example_server1 example_world = Some (a, w')"
    using newAddress_contract [of example_server1 example_world] by blast
  moreover have "newAddress example_server1 example_world =
                   Some (example_addr_B, example_world\<lparr>rand_reads := 10\<rparr>)"
    by (simp add: example_simps run_simps)
  moreover have "registry_consistent example_server1"
    by (rule reachable_consistent [OF example_server1_reachable])
  moreover have "clients example_server1 ''10.0.0.1:213'' = Some 0"
    "ipxAddr (heap example_server1 0) \<noteq> example_addr_B"
    "example_addr_B ! 0 = 0x02" "length example_addr_B = 6"
    by (simp_all add: example_simps)
  ultimately show ?thesis using r1 r2 f by simp
qed

text \<open>
  C6. A packet that is not a registration packet and whose sender is not a registered
  endpoint, or whose source address differs from the sender's allocated address, is
  dropped by \<open>processPacket\<close>: the server state and the environment, with the socket
  log, are what they were, and \<open>processPacket\<close> returns nothing else.
\<close>

theorem spoofed_or_unregistered_dropped:
  "UnmarshalBinary cd packet = Inr header \<Longrightarrow> \<not> IsRegistrationPacket header \<Longrightarrow>
   clients s (String a) = None \<or>
     (\<exists>c. clients s (String a) = Some c \<and> Addr (Src header) \<noteq> ipxAddr (heap s c)) \<Longrightarrow>
   processPacket cd packet a ks (s, w) = Some (s, w)"
  by (auto simp: processPacket_def)

theorem spoofed_or_unregistered_dropped_witness:
  "UnmarshalBinary example_codec (example_packet example_addr_B example_addr_A) =
     Inr (example_header example_addr_B example_addr_A) \<and>
   \<not> IsRegistrationPacket (example_header example_addr_B example_addr_A) \<and>
   clients example_server2 (String (UDPAddr ''10.0.0.9:213'')) = None \<and>
   processPacket example_codec (example_packet example_addr_B example_addr_A)
     (UDPAddr ''10.0.0.9:213'') example_order (example_server2, example_world) =
     Some (example_server2, example_world) \<and>
   clients example_server2 (String (UDPAddr ''10.0.0.2:213'')) = Some 1 \<and>
   Addr (Src (example_header example_addr_B example_addr_A)) \<noteq> ipxAddr (heap example_server2 1) \<and>
   processPacket example_codec (example_packet example_addr_B example_addr_A)
     (UDPAddr ''10.0.0.2:213'') example_order (example_server2, example_world) =
     Some (example_server2, example_world)"
  using spoofed_or_unregistered_dropped [of example_codec
      "example_packet example_addr_B example_addr_A" "example_header example_addr_B example_addr_A"
      example_server2 "UDPAddr ''10.0.0.9:213''" example_order example_world]
    spoofed_or_unregistered_dropped [of example_codec
      "example_packet example_addr_B example_addr_A" "example_header example_addr_B example_addr_A"
      example_server2 "UDPAddr ''10.0.0.2:213''" example_order example_world]
  by (simp add: example_simps IsRegistrationPacket_def)

text \<open>
  C7. A client whose last-receive time plus the client timeout lies before the time read
  at the start of a pass of \<open>checkClientTimeouts\<close> is, after the pass, in neither
  registry map; and \<open>newAddress\<close> then returns its address as soon as the random source
  produces it (the address not being one of the reserved ones).
\<close>

theorem timeout_eviction:
  assumes "registry_consistent s" and "range_order ks s" and "clients s k = Some c"
    and "After (fst (time_Now w)) (Add (lastReceiveTime (heap s c)) (ClientTimeout (config s)))"
    and "checkClientTimeouts cd ks (s, w) = (t, s', w')"
  shows "clients s' k = None \<and> clientsByIPX s' (ipxAddr (heap s c)) = None \<and>
         (\<forall>w2 w3. newAddress_fill 1 ((replicate 6 0)[0 := 2]) w2 = (ipxAddr (heap s c), w3) \<and>
                  ipxAddr (heap s c) \<noteq> AddrNull \<and> ipxAddr (heap s c) \<noteq> AddrBroadcast \<and>
                  ipxAddr (heap s c) \<noteq> addrPingReply \<longrightarrow>
                  newAddress s' w2 = Some (ipxAddr (heap s c), w3))"
proof -
  obtain now w1 where n: "time_Now w = (now, w1)" by (cases "time_Now w")
  have l: "checkClientTimeouts_loop cd now ks (Add now (10 * Second)) (s, w1) = (t, s', w')"
    using assms(5) n by (simp add: checkClientTimeouts_def)
  have "k \<in> set ks" using assms(2,3) by (auto simp: range_order_def)
  then have gone: "clients s' k = None \<and> clientsByIPX s' (ipxAddr (heap s c)) = None"
    using checkClientTimeouts_loop_evicts[OF assms(1,3) _ _ l] assms(4) n by simp
  then show ?thesis
    using newAddress_first_candidate[of _ "ipxAddr (heap s c)" _ s'] by blast
qed

theorem timeout_eviction_witness:
  "registry_consistent example_server2 \<and> range_order example_order example_server2 \<and>
   clients example_server2 ''10.0.0.1:213'' = Some 0 \<and>
   After (fst (time_Now example_world_late))
     (Add (lastReceiveTime (heap example_server2 0)) (ClientTimeout (config example_server2))) \<and>
   clients (fst (snd example_pass)) ''10.0.0.1:213'' = None \<and>
   clientsByIPX (fst (snd example_pass)) example_addr_A = None \<and>
   newAddress (fst (snd example_pass)) example_world =
     Some (example_addr_A, example_world\<lparr>rand_reads := 5\<rparr>)"
  using timeout_eviction [OF example_server2_consistent example_order_range,
      of "''10.0.0.1:213''" 0 example_world_late example_codec
         "fst example_pass" "fst (snd example_pass)" "snd (snd example_pass)"]
    example_server2_consistent example_order_range
  by (simp add: example_pass_def example_simps example_world_late_def run_simps pass_simps)

text \<open>
  C8. For a client whose last-send time plus the keepalive interval lies before the time
  read at the start of a pass of \<open>checkClientTimeouts\<close>, the pass hands the ping header,
  as the codec encodes it, to the socket for that client's endpoint, and sets the
  client's last-send time to a clock reading taken during the pass. The ping header has the broadcast address
  and socket 2 as destination and the ping-source address and socket 0 as source.
\<close>

theorem keepalive_ping:
  assumes "registry_consistent s" and "range_order ks s" and "clients s k = Some c"
    and "After (fst (time_Now w)) (Add (lastSendTime (heap s c)) (KeepaliveTime (config s)))"
    and "checkClientTimeouts cd ks (s, w) = (t, s', w')"
  shows "(\<forall>encodedHeader. MarshalBinary cd sendPing_header = Inr encodedHeader \<longrightarrow>
            (encodedHeader, addr (heap s c)) \<in> set (drop (length (sent w)) (sent w'))) \<and>
         (\<exists>i. clock_reads w < i \<and> i < clock_reads w' \<and> lastSendTime (heap s' c) = clock w i) \<and>
         Addr (Dest sendPing_header) = AddrBroadcast \<and> Socket (Dest sendPing_header) = 2 \<and>
         Addr (Src sendPing_header) = addrPingReply \<and> Socket (Src sendPing_header) = 0"
proof -
  let ?w1 = "w\<lparr>clock_reads := Suc (clock_reads w)\<rparr>"
  let ?now = "clock w (clock_reads w)"
  have l: "checkClientTimeouts_loop cd ?now ks (Add ?now (10 * Second)) (s, ?w1) = (t, s', w')"
    using assms(5) by (simp add: checkClientTimeouts_def time_Now_def)
  have "k \<in> set ks" using assms(2,3) by (auto simp: range_order_def)
  moreover have "After ?now (Add (lastSendTime (heap s c)) (KeepaliveTime (config s)))"
    using assms(4) by (simp add: time_Now_def)
  ultimately have
    "(\<exists>i. clock_reads ?w1 \<le> i \<and> i < clock_reads w' \<and> lastSendTime (heap s' c) = clock ?w1 i) \<and>
     (\<forall>encodedHeader. MarshalBinary cd sendPing_header = Inr encodedHeader \<longrightarrow>
        (encodedHeader, addr (heap s c)) \<in> set (drop (length (sent ?w1)) (sent w')))"
    using checkClientTimeouts_loop_pings[OF assms(1,3) _ _ l] by blast
  then have "\<forall>encodedHeader. MarshalBinary cd sendPing_header = Inr encodedHeader \<longrightarrow>
        (encodedHeader, addr (heap s c)) \<in> set (drop (length (sent w)) (sent w'))"
    and "\<exists>i. clock_reads w < i \<and> i < clock_reads w' \<and> lastSendTime (heap s' c) = clock w i"
    by (auto simp: Suc_le_eq)
  then show ?thesis by (simp add: sendPing_header_def)
qed

theorem keepalive_ping_witness:
  "registry_consistent example_server2 \<and> range_order example_order example_server2 \<and>
   clients example_server2 ''10.0.0.2:213'' = Some 1 \<and>
   After (fst (time_Now example_world_late))
     (Add (lastSendTime (heap example_server2 1)) (KeepaliveTime (config example_server2))) \<and>
   MarshalBinary example_codec sendPing_header = Inr example_ping \<and>
   sent (snd (snd example_pass)) =
     [(example_ping, UDPAddr ''10.0.0.1:213''), (example_ping, UDPAddr ''10.0.0.2:213'')] \<and>
   lastSendTime (heap (fst (snd example_pass)) 1) = clock example_world_late 2 \<and>
   clock_reads example_world_late = 0 \<and> clock_reads (snd (snd example_pass)) = 3"
  using keepalive_ping [OF example_server2_consistent example_order_range,
      of "''10.0.0.2:213''" 1 example_world_late example_codec
         "fst example_pass" "fst (snd example_pass)" "snd (snd example_pass)"]
    example_server2_consistent example_order_range
  by (simp add: example_pass_def example_ping_def example_simps example_world_late_def
      run_simps pass_simps)

text \<open>
  C9. For a packet that is not a registration packet and passes the sender check while a
  tap is attached, \<open>processPacket\<close> sends the raw packet on the tap's channel whatever
  \<open>forwardPacket\<close> returned, an error such as \<open>UnknownClientError\<close> included: when a
  reader receives from the tap, the packet is published and \<open>processPacket\<close> returns,
  and when no reader does, \<open>processPacket\<close> stays in the send and does not return. The
  outcome of forwarding plays no part in either case.
\<close>

theorem tap_publication_unconditional:
  assumes "UnmarshalBinary cd packet = Inr header" and "\<not> IsRegistrationPacket header"
    and "clients s (String a) = Some c" and "Addr (Src header) = ipxAddr (heap s c)"
    and "tap s = Some t"
  shows "\<exists>err s2 w2.
           forwardPacket header packet ks
             (set_lastReceiveTime c (fst (time_Now w)) s, snd (time_Now w)) = (err, s2, w2) \<and>
           processPacket cd packet a ks (s, w) =
             (if tap_receives w (tap_sends w)
              then Some (s2\<lparr>tap := Some (t\<lparr>packets := packets t @ [packet]\<rparr>)\<rparr>,
                         w2\<lparr>tap_sends := Suc (tap_sends w)\<rparr>)
              else None)"
proof -
  obtain now w1 where n: "time_Now w = (now, w1)" by (cases "time_Now w")
  let ?s1 = "set_lastReceiveTime c now s"
  obtain err s2 w2 where f: "forwardPacket header packet ks (?s1, w1) = (err, s2, w2)"
    by (cases "forwardPacket header packet ks (?s1, w1)")
  have "same_identities ?s1 s2"
    using forwardPacket_identities[of ?s1 header packet ks w1] f by simp
  then have tp: "tap s2 = Some t"
    using assms(5) by (simp add: same_identities_def set_lastReceiveTime_def)
  have "tap_receives w1 = tap_receives w" "tap_sends w1 = tap_sends w"
    using n by (auto simp: time_Now_def)
  then have rd: "tap_receives w2 = tap_receives w" "tap_sends w2 = tap_sends w"
    using forwardPacket_tap_reader[OF f] by simp_all
  have "processPacket cd packet a ks (s, w) = tap_publish packet (s2, w2)"
    using assms(1-4) f n by (simp add: processPacket_def)
  then have "processPacket cd packet a ks (s, w) =
               (if tap_receives w (tap_sends w)
                then Some (s2\<lparr>tap := Some (t\<lparr>packets := packets t @ [packet]\<rparr>)\<rparr>,
                           w2\<lparr>tap_sends := Suc (tap_sends w)\<rparr>)
                else None)"
    using tp rd by (simp add: tap_publish_def)
  with f n show ?thesis by simp
qed

theorem tap_publication_unconditional_witness:
  "UnmarshalBinary example_codec (example_packet example_addr_C example_addr_A) =
     Inr (example_header example_addr_C example_addr_A) \<and>
   \<not> IsRegistrationPacket (example_header example_addr_C example_addr_A) \<and>
   clients example_server2_tapped (String (UDPAddr ''10.0.0.1:213'')) = Some 0 \<and>
   Addr (Src (example_header example_addr_C example_addr_A)) = ipxAddr (heap example_server2_tapped 0) \<and>
   tap example_server2_tapped = Some \<lparr>packets = []\<rparr> \<and>
   fst (forwardPacket (example_header example_addr_C example_addr_A)
          (example_packet example_addr_C example_addr_A) example_order
          (set_lastReceiveTime 0 (fst (time_Now example_world)) example_server2_tapped,
           snd (time_Now example_world))) = Some UnknownClientError \<and>
   tap_receives example_world (tap_sends example_world) \<and>
   map_option (tap \<circ> fst)
     (processPacket example_codec (example_packet example_addr_C example_addr_A)
        (UDPAddr ''10.0.0.1:213'') example_order (example_server2_tapped, example_world)) =
     Some (Some \<lparr>packets = [example_packet example_addr_C example_addr_A]\<rparr>) \<and>
   \<not> tap_receives example_world_unread (tap_sends example_world_unread) \<and>
   processPacket example_codec (example_packet example_addr_C example_addr_A)
     (UDPAddr ''10.0.0.1:213'') example_order (example_server2_tapped, example_world_unread) = None"
  using tap_publication_unconditional [of example_codec
      "example_packet example_addr_C example_addr_A" "example_header example_addr_C example_addr_A"
      example_server2_tapped "UDPAddr ''10.0.0.1:213''" 0 "\<lparr>packets = []\<rparr>" example_order example_world]
    tap_publication_unconditional [of example_codec
      "example_packet example_addr_C example_addr_A" "example_header example_addr_C example_addr_A"
      example_server2_tapped "UDPAddr ''10.0.0.1:213''" 0 "\<lparr>packets = []\<rparr>" example_order
      example_world_unread]
  by (simp add: example_simps example_server2_tapped_def example_world_unread_def
      forwardPacket_def run_simps tap_publish_def)

text \<open>
  C10. A registration packet from an endpoint that is already registered changes nothing
  but the last-send time of that endpoint's record; the last-receive time stays. So
  while the endpoint sends registration packets only, whatever else the server does, its
  record keeps the last-receive time it had, and a pass of \<open>checkClientTimeouts\<close> that
  starts after that time plus the client timeout removes the client from both maps.
\<close>

theorem registration_keeps_lastReceiveTime:
  assumes "registry_consistent s" and "clients s (String a) = Some c"
  shows "(\<forall>packet header ks w s' w'.
            UnmarshalBinary cd packet = Inr header \<and> IsRegistrationPacket header \<and>
            processPacket cd packet a ks (s, w) = Some (s', w') \<longrightarrow>
            s' = set_lastSendTime c (fst (time_Now w)) s) \<and>
         (\<forall>w s1 w1.
            quiet_run cd a (s, w) (s1, w1) \<longrightarrow>
            lastReceiveTime (heap s1 c) = lastReceiveTime (heap s c) \<and>
            (\<forall>ks t s2 w2.
               clients s1 (String a) = Some c \<and> range_order ks s1 \<and>
               After (fst (time_Now w1))
                 (Add (lastReceiveTime (heap s c)) (ClientTimeout (config s))) \<and>
               checkClientTimeouts cd ks (s1, w1) = (t, s2, w2) \<longrightarrow>
               clients s2 (String a) = None \<and> clientsByIPX s2 (ipxAddr (heap s c)) = None))"
proof (intro conjI allI impI)
  fix packet header ks w s' w'
  assume "UnmarshalBinary cd packet = Inr header \<and> IsRegistrationPacket header \<and>
          processPacket cd packet a ks (s, w) = Some (s', w')"
  then show "s' = set_lastSendTime c (fst (time_Now w)) s"
    using processPacket_registration_known assms(2) by blast
next
  fix w s1 w1
  assume run: "quiet_run cd a (s, w) (s1, w1)"
  have inv: "registry_consistent s1" "record_kept c s s1"
    using quiet_run_kept[OF run] assms by simp_all
  show "lastReceiveTime (heap s1 c) = lastReceiveTime (heap s c)"
    using inv(2) by (simp add: record_kept_def)
  fix ks t s2 w2
  assume h: "clients s1 (String a) = Some c \<and> range_order ks s1 \<and>
             After (fst (time_Now w1)) (Add (lastReceiveTime (heap s c)) (ClientTimeout (config s))) \<and>
             checkClientTimeouts cd ks (s1, w1) = (t, s2, w2)"
  obtain now w1' where n: "time_Now w1 = (now, w1')" by (cases "time_Now w1")
  have l: "checkClientTimeouts_loop cd now ks (Add now (10 * Second)) (s1, w1') = (t, s2, w2)"
    using h n by (simp add: checkClientTimeouts_def)
  have "String a \<in> set ks" using h by (auto simp: range_order_def)
  moreover have "After now (Add (lastReceiveTime (heap s1 c)) (ClientTimeout (config s1)))"
    using h n inv(2) by (simp add: record_kept_def)
  ultimately have "clients s2 (String a) = None \<and> clientsByIPX s2 (ipxAddr (heap s1 c)) = None"
    using checkClientTimeouts_loop_evicts[OF inv(1) _ _ _ l] h by blast
  then show "clients s2 (String a) = None" "clientsByIPX s2 (ipxAddr (heap s c)) = None"
    using inv(2) by (simp_all add: record_kept_def)
qed

theorem registration_keeps_lastReceiveTime_witness:
  "registry_consistent example_server2 \<and>
   clients example_server2 (String (UDPAddr ''10.0.0.1:213'')) = Some 0 \<and>
   UnmarshalBinary example_codec (example_packet AddrNull AddrNull) =
     Inr (example_header AddrNull AddrNull) \<and>
   IsRegistrationPacket (example_header AddrNull AddrNull) \<and>
   processPacket example_codec (example_packet AddrNull AddrNull) (UDPAddr ''10.0.0.1:213'')
     example_order (example_server2, example_world_late) = Some example_reregistered \<and>
   fst example_reregistered = set_lastSendTime 0 (1000 * Second) example_server2 \<and>
   quiet_run example_codec (UDPAddr ''10.0.0.1:213'') (example_server2, example_world_late)
     example_quiet \<and>
   lastSendTime (heap (fst example_quiet) 0) = 1002 * Second \<and>
   lastReceiveTime (heap (fst example_quiet) 0) = lastReceiveTime (heap example_server2 0) \<and>
   clients (fst example_quiet) (String (UDPAddr ''10.0.0.1:213'')) = Some 0 \<and>
   range_order example_order (fst example_quiet) \<and>
   After (fst (time_Now (snd example_quiet)))
     (Add (lastReceiveTime (heap example_server2 0)) (ClientTimeout (config example_server2))) \<and>
   clients (fst (snd (checkClientTimeouts example_codec example_order example_quiet)))
     ''10.0.0.1:213'' = None \<and>
   clients (fst (snd (checkClientTimeouts example_codec example_order example_quiet)))
     ''10.0.0.2:213'' = Some 1"
proof -
  let ?a = "UDPAddr ''10.0.0.1:213''"
  let ?r = "checkClientTimeouts example_codec example_order example_quiet"
  have c: "clients example_server2 (String ?a) = Some 0"
    by (simp add: example_simps)
  note t = registration_keeps_lastReceiveTime [OF example_server2_consistent c, of example_codec]
  have reg: "UnmarshalBinary example_codec (example_packet AddrNull AddrNull) =
               Inr (example_header AddrNull AddrNull)"
    "IsRegistrationPacket (example_header AddrNull AddrNull)"
    "processPacket example_codec (example_packet AddrNull AddrNull) ?a
       example_order (example_server2, example_world_late) = Some example_reregistered"
    by (simp_all add: example_reregistered_def example_simps example_world_late_def run_simps)
  have "fst example_reregistered = set_lastSendTime 0 (fst (time_Now example_world_late)) example_server2"
    by (rule t [THEN conjunct1, rule_format, of "example_packet AddrNull AddrNull"
          "example_header AddrNull AddrNull" example_order example_world_late _
          "snd example_reregistered"]) (simp add: reg)
  then have a: "fst example_reregistered = set_lastSendTime 0 (1000 * Second) example_server2"
    by (simp add: example_world_late_def example_world_def time_Now_def)
  have run: "quiet_run example_codec ?a (example_server2, example_world_late)
               (fst example_quiet, snd example_quiet)"
    using example_quiet_run by simp
  note q = t [THEN conjunct2, rule_format, OF run]
  have st: "clients (fst example_quiet) (String ?a) = Some 0"
    "range_order example_order (fst example_quiet)"
    "After (fst (time_Now (snd example_quiet)))
       (Add (lastReceiveTime (heap example_server2 0)) (ClientTimeout (config example_server2)))"
    "lastSendTime (heap (fst example_quiet) 0) = 1002 * Second"
    by (auto simp: example_quiet_def example_reregistered_def example_simps example_world_late_def
        run_simps forwardPacket_def tap_publish_def range_order_def Second_def)
  have ev: "clients (fst (snd ?r)) (String ?a) = None"
    by (rule q [THEN conjunct2, rule_format, THEN conjunct1,
          of example_order "fst ?r" "fst (snd ?r)" "snd (snd ?r)"]) (insert st, simp)
  have other: "clients (fst (snd ?r)) ''10.0.0.2:213'' = Some 1"
    by (simp add: example_quiet_def example_reregistered_def example_simps example_world_late_def
        run_simps forwardPacket_def tap_publish_def pass_simps)
  show ?thesis
    using example_server2_consistent c reg a example_quiet_run st q [THEN conjunct1] ev other
    by simp
qed

end
